theory Spec2Isabelle
  imports Main "HOL-Library.AList" "HOL-Library.Word"
begin

section \<open>Values exchanged with the AtVenu API\<close>

text \<open>
  The fetcher works on the objects that \<^verbatim>\<open>response.json()\<close> returns: Python
  \<^verbatim>\<open>None\<close>, booleans, integers, strings, lists and dictionaries with string keys.
  A dictionary is an association list read with \<open>map_of\<close> (the first binding of a key
  is the one the dictionary holds); a string is a list of characters. JSON numbers are
  the integers: the count fields are integers, and fractional numbers are outside this
  development.
\<close>

datatype json =
    JNull
  | JBool bool
  | JInt int
  | JStr string
  | JList "json list"
  | JObj "(string \<times> json) list"

text \<open>
  The exceptions the code can raise: the built-in ones of the dictionary and list
  operations, the two failures of the HTTP library (\<^verbatim>\<open>requests.post\<close> not completing,
  \<^verbatim>\<open>response.json()\<close> on a body that is not JSON), and the two \<^verbatim>\<open>Exception\<close>s
  that \<^verbatim>\<open>execute_query\<close> raises itself, told apart by their message:
  \<^verbatim>\<open>"Query failed with status code: ..."\<close> and \<^verbatim>\<open>"GraphQL query failed: ..."\<close>.
\<close>

datatype py_error =
    KeyError
  | TypeError
  | IndexError
  | AttributeError
  | RequestException
  | JSONDecodeError
  | Query_failed_with_status_code int string
  | GraphQL_query_failed json

subsection \<open>The Python operations the fetcher uses\<close>

text \<open>Truth value of an object, as \<^verbatim>\<open>if x\<close>, \<^verbatim>\<open>not x\<close> and \<^verbatim>\<open>x or y\<close> test it.\<close>

fun truthy :: "json \<Rightarrow> bool" where
  "truthy JNull = False"
| "truthy (JBool b) = b"
| "truthy (JInt n) = (n \<noteq> 0)"
| "truthy (JStr s) = (s \<noteq> [])"
| "truthy (JList xs) = (xs \<noteq> [])"
| "truthy (JObj kvs) = (kvs \<noteq> [])"

text \<open>\<^verbatim>\<open>x or y\<close>: \<^verbatim>\<open>x\<close> when it is true, else \<^verbatim>\<open>y\<close>.\<close>

definition py_or :: "json \<Rightarrow> json \<Rightarrow> json" where
  "py_or x y = (if truthy x then x else y)"

text \<open>\<^verbatim>\<open>x['k']\<close> with a string key: only a dictionary accepts it.\<close>

fun subscript :: "json \<Rightarrow> string \<Rightarrow> py_error + json" where
  "subscript (JObj kvs) k = (case map_of kvs k of None \<Rightarrow> Inl KeyError | Some v \<Rightarrow> Inr v)"
| "subscript _ k = Inl TypeError"

text \<open>
  \<^verbatim>\<open>x[0]\<close>: the first element of a list or string, \<^verbatim>\<open>IndexError\<close> when it is empty;
  a dictionary with string keys has no key \<^verbatim>\<open>0\<close>.
\<close>

fun subscript0 :: "json \<Rightarrow> py_error + json" where
  "subscript0 (JList []) = Inl IndexError"
| "subscript0 (JList (x # xs)) = Inr x"
| "subscript0 (JStr []) = Inl IndexError"
| "subscript0 (JStr (c # cs)) = Inr (JStr [c])"
| "subscript0 (JObj kvs) = Inl KeyError"
| "subscript0 _ = Inl TypeError"

text \<open>\<^verbatim>\<open>x.get('k', d)\<close>: a method of dictionaries only.\<close>

fun dict_get :: "json \<Rightarrow> string \<Rightarrow> json \<Rightarrow> py_error + json" where
  "dict_get (JObj kvs) k d = (case map_of kvs k of None \<Rightarrow> Inr d | Some v \<Rightarrow> Inr v)"
| "dict_get _ k d = Inl AttributeError"

text \<open>
  The keys of a dictionary, in the order of their first bindings.
\<close>

definition dict_keys :: "(string \<times> json) list \<Rightarrow> string list" where
  "dict_keys kvs = rev (remdups (rev (map fst kvs)))"

text \<open>
  The elements a \<^verbatim>\<open>for\<close> loop, a generator or \<^verbatim>\<open>list.extend\<close> draws from an object:
  the elements of a list, the characters of a string, the keys of a dictionary.
\<close>

fun py_iter :: "json \<Rightarrow> py_error + json list" where
  "py_iter (JList xs) = Inr xs"
| "py_iter (JStr s) = Inr (map (\<lambda>c. JStr [c]) s)"
| "py_iter (JObj kvs) = Inr (map JStr (dict_keys kvs))"
| "py_iter _ = Inl TypeError"

text \<open>
  The integer an object stands for in \<^verbatim>\<open>+\<close> and \<^verbatim>\<open>-\<close> with an integer on the other
  side: integers and booleans (\<^verbatim>\<open>True\<close> is 1); any other operand is a \<^verbatim>\<open>TypeError\<close>.
\<close>

fun py_num :: "json \<Rightarrow> py_error + int" where
  "py_num (JInt n) = Inr n"
| "py_num (JBool b) = Inr (if b then 1 else 0)"
| "py_num _ = Inl TypeError"

text \<open>Sequencing of steps that may raise: the first exception ends the computation.\<close>

definition bind_err :: "py_error + 'a \<Rightarrow> ('a \<Rightarrow> py_error + 'b) \<Rightarrow> py_error + 'b" where
  "bind_err m f = (case m of Inl e \<Rightarrow> Inl e | Inr x \<Rightarrow> f x)"

subsection \<open>Equality, membership, assignment\<close>

text \<open>
  \<^verbatim>\<open>x == y\<close> on these objects: booleans compare with integers as 0 and 1, lists
  element by element, dictionaries as sets of key-value pairs; objects of different
  kinds are unequal.
\<close>

function py_eq :: "json \<Rightarrow> json \<Rightarrow> bool" where
  "py_eq JNull y = (case y of JNull \<Rightarrow> True | _ \<Rightarrow> False)"
| "py_eq (JBool a) y =
     (case y of JBool b \<Rightarrow> a = b | JInt n \<Rightarrow> (if a then 1 else 0) = n | _ \<Rightarrow> False)"
| "py_eq (JInt m) y =
     (case y of JBool b \<Rightarrow> m = (if b then 1 else 0) | JInt n \<Rightarrow> m = n | _ \<Rightarrow> False)"
| "py_eq (JStr s) y = (case y of JStr t \<Rightarrow> s = t | _ \<Rightarrow> False)"
| "py_eq (JList xs) y = (case y of JList ys \<Rightarrow> list_all2 py_eq xs ys | _ \<Rightarrow> False)"
| "py_eq (JObj a) y =
     (case y of
        JObj b \<Rightarrow>
          list_all (\<lambda>k. map_of a k \<noteq> None) (map fst b)
          \<and> list_all (\<lambda>k. case map_of a k of None \<Rightarrow> False
                 | Some x \<Rightarrow> (case map_of b k of None \<Rightarrow> False | Some y \<Rightarrow> py_eq x y))
               (map fst a)
      | _ \<Rightarrow> False)"
  by pat_completeness auto
termination
proof (relation "measure (\<lambda>(x, y). size x)")
  show "wf (measure (\<lambda>(x, y). size x))"
    by simp
next
  fix xs :: "json list" and y ys z yb
  assume "z \<in> set xs"
  then have "size z < Suc (size_list size xs)"
    by (induction xs) auto
  then show "((z, yb), JList xs, y) \<in> measure (\<lambda>(x, y). size x)"
    by simp
next
  fix a :: "(string \<times> json) list" and y x6 z x2 x2a
  assume "map_of a z = Some x2"
  then have "size x2 < Suc (size_list (size_prod (\<lambda>x. 0) size) a)"
    by (induction a) (auto split: if_splits)
  then show "((x2, x2a), JObj a, y) \<in> measure (\<lambda>(x, y). size x)"
    by simp
qed

text \<open>The objects a dictionary accepts as keys.\<close>

fun hashable :: "json \<Rightarrow> bool" where
  "hashable (JList xs) = False"
| "hashable (JObj kvs) = False"
| "hashable _ = True"

text \<open>Whether a string occurs inside another, as \<^verbatim>\<open>'k' in s\<close> tests it.\<close>

fun is_substring :: "string \<Rightarrow> string \<Rightarrow> bool" where
  "is_substring k [] = (k = [])"
| "is_substring k (c # cs) = (take (length k) (c # cs) = k \<or> is_substring k cs)"

text \<open>
  \<^verbatim>\<open>'k' in x\<close>: a key of a dictionary, an element of a list, a substring of a string.
\<close>

fun py_in :: "string \<Rightarrow> json \<Rightarrow> py_error + bool" where
  "py_in k (JObj kvs) = Inr (map_of kvs k \<noteq> None)"
| "py_in k (JList xs) = Inr (JStr k \<in> set xs)"
| "py_in k (JStr s) = Inr (is_substring k s)"
| "py_in k _ = Inl TypeError"

text \<open>\<^verbatim>\<open>x['k'] = v\<close>: only a dictionary accepts it.\<close>

fun set_item :: "json \<Rightarrow> string \<Rightarrow> json \<Rightarrow> py_error + json" where
  "set_item (JObj kvs) k v = Inr (JObj (AList.update k v kvs))"
| "set_item _ k v = Inl TypeError"

text \<open>A chain of subscripts \<^verbatim>\<open>x['a']['b']...\<close>, evaluated from the left.\<close>

fun path :: "json \<Rightarrow> string list \<Rightarrow> py_error + json" where
  "path x [] = Inr x"
| "path x (k # ks) = bind_err (subscript x k) (\<lambda>y. path y ks)"

section \<open>The API client\<close>

text \<open>
  The five query documents with their variables. The cursor is the last variable of
  each; the dates of the shows query are the ISO strings the caller passes.
\<close>

datatype request =
    Accounts_query json
  | Tours_query json json
  | Shows_query json string string json
  | Merchandise_query json json
  | Counts_query json json

text \<open>
  What \<^verbatim>\<open>requests.post\<close> gives: no response at all (the call raises), or a response
  with its status code, its text and the value \<^verbatim>\<open>response.json()\<close> parses from it
  (\<open>None\<close> when the text is not JSON).
\<close>

datatype http_result =
    No_response
  | Response int string "json option"

text \<open>
  The remote service answers a request knowing every request sent before it: it is a
  function from the requests sent so far, the current one last, to its reply.
\<close>

type_synonym api = "request list \<Rightarrow> http_result"

text \<open>
  The state a fetch runs in: the requests posted so far, in order, and the account
  identifiers \<^verbatim>\<open>fetch_merchandise\<close> has been entered with (the arguments of its
  \<^verbatim>\<open>"Fetching merchandise for account ..."\<close> log lines), in order.
\<close>

record world =
  sent :: "request list"
  merch_calls :: "json list"

text \<open>
  A step of the fetch: it may raise, it changes the state, and a loop inside it may run
  forever (\<open>None\<close>).
\<close>

type_synonym 'a action = "world \<Rightarrow> ((py_error + 'a) \<times> world) option"

definition then_do :: "'a action \<Rightarrow> ('a \<Rightarrow> 'b action) \<Rightarrow> 'b action" where
  "then_do m f w =
     (case m w of None \<Rightarrow> None
      | Some (Inl e, w') \<Rightarrow> Some (Inl e, w')
      | Some (Inr x, w') \<Rightarrow> f x w')"

definition pure_step :: "py_error + 'a \<Rightarrow> 'a action" where
  "pure_step r w = Some (r, w)"

text \<open>\<^verbatim>\<open>AtVenuDataFetcher.execute_query\<close>.\<close>

definition execute_query :: "api \<Rightarrow> request \<Rightarrow> world \<Rightarrow> (py_error + json) \<times> world" where
  "execute_query api req w =
     (let w' = w\<lparr>sent := sent w @ [req]\<rparr> in
      case api (sent w') of
        No_response \<Rightarrow> (Inl RequestException, w')
      | Response status_code text body \<Rightarrow>
          if status_code = 200 then
            (case body of
               None \<Rightarrow> (Inl JSONDecodeError, w')
             | Some result \<Rightarrow>
                 (bind_err (py_in ''errors'' result) (\<lambda>has_errors.
                    if has_errors
                    then bind_err (subscript result ''errors'') (\<lambda>errors.
                           Inl (GraphQL_query_failed errors))
                    else Inr result), w'))
          else (Inl (Query_failed_with_status_code status_code text), w'))"

section \<open>The paginated collectors\<close>

text \<open>
  What one turn of a collector's \<^verbatim>\<open>while True\<close> loop does with the result of its
  query: it extends the accumulated list with the page's \<^verbatim>\<open>nodes\<close>, then reads
  \<^verbatim>\<open>pageInfo.hasNextPage\<close>, and only when that is true \<^verbatim>\<open>pageInfo.endCursor\<close>.
  \<open>conn\<close> is the chain of subscripts from the result to the connection object;
  \<^verbatim>\<open>fetch_merchandise\<close> and \<^verbatim>\<open>fetch_counts\<close> write the chain out three times, the
  other collectors bind it to a variable once.
\<close>

definition page_step ::
  "(json \<Rightarrow> py_error + json) \<Rightarrow> json \<Rightarrow> json list \<Rightarrow> py_error + (json list \<times> json option)"
where
  "page_step conn result acc =
     bind_err (conn result) (\<lambda>data.
     bind_err (subscript data ''nodes'') (\<lambda>nodes.
     bind_err (py_iter nodes) (\<lambda>items.
     bind_err (subscript data ''pageInfo'') (\<lambda>page_info.
     bind_err (subscript page_info ''hasNextPage'') (\<lambda>has_next_page.
     if \<not> truthy has_next_page then Inr (acc @ items, None)
     else bind_err (subscript page_info ''endCursor'') (\<lambda>end_cursor.
            Inr (acc @ items, Some end_cursor)))))))"

text \<open>
  The loop itself: one request per turn, built from the current cursor by \<open>mk\<close>. The
  loop ends at the first exception or at the first page without a next page; when
  neither ever happens it does not return.
\<close>

partial_function (option) paginate ::
  "api \<Rightarrow> (json \<Rightarrow> request) \<Rightarrow> (json \<Rightarrow> py_error + json) \<Rightarrow> json list \<Rightarrow> json \<Rightarrow> world
   \<Rightarrow> ((py_error + json list) \<times> world) option"
where
  "paginate api mk conn acc cursor w =
     (case execute_query api (mk cursor) w of
        (Inl e, w') \<Rightarrow> Some (Inl e, w')
      | (Inr result, w') \<Rightarrow>
          (case page_step conn result acc of
             Inl e \<Rightarrow> Some (Inl e, w')
           | Inr (acc', None) \<Rightarrow> Some (Inr acc', w')
           | Inr (acc', Some end_cursor) \<Rightarrow> paginate api mk conn acc' end_cursor w'))"

text \<open>\<^verbatim>\<open>fetch_accounts\<close>, \<^verbatim>\<open>fetch_tours\<close>, \<^verbatim>\<open>fetch_shows\<close>.\<close>

definition fetch_accounts :: "api \<Rightarrow> json list action" where
  "fetch_accounts api =
     paginate api Accounts_query (\<lambda>result. path result [''data'', ''organization'', ''accounts''])
       [] JNull"

definition fetch_tours :: "api \<Rightarrow> json \<Rightarrow> json list action" where
  "fetch_tours api account_uuid =
     paginate api (Tours_query account_uuid)
       (\<lambda>result. path result [''data'', ''account'', ''tours'']) [] JNull"

definition fetch_shows :: "api \<Rightarrow> json \<Rightarrow> string \<Rightarrow> string \<Rightarrow> json list action" where
  "fetch_shows api tour_uuid start_date end_date =
     paginate api (Shows_query tour_uuid start_date end_date)
       (\<lambda>result. path result [''data'', ''tour'', ''shows'']) [] JNull"

text \<open>\<^verbatim>\<open>fetch_merchandise\<close>: its entry is recorded before the first request.\<close>

definition fetch_merchandise :: "api \<Rightarrow> json \<Rightarrow> json list action" where
  "fetch_merchandise api account_uuid w =
     paginate api (Merchandise_query account_uuid)
       (\<lambda>result. path result [''data'', ''account'', ''merchItems'']) [] JNull
       (w\<lparr>merch_calls := merch_calls w @ [account_uuid]\<rparr>)"

text \<open>
  \<^verbatim>\<open>fetch_counts\<close>: the connection is the \<^verbatim>\<open>mainCounts\<close> of
  \<^verbatim>\<open>result['data']['show']['settlements'][0]\<close>.
\<close>

definition counts_connection :: "json \<Rightarrow> py_error + json" where
  "counts_connection result =
     bind_err (path result [''data'', ''show'', ''settlements'']) (\<lambda>settlements.
     bind_err (subscript0 settlements) (\<lambda>settlement.
     subscript settlement ''mainCounts''))"

definition fetch_counts :: "api \<Rightarrow> json \<Rightarrow> json list action" where
  "fetch_counts api show_uuid =
     paginate api (Counts_query show_uuid) counts_connection [] JNull"

section \<open>The walk over accounts, tours and shows\<close>

text \<open>The innermost loop of \<^verbatim>\<open>fetch_shows_in_date_range\<close>.\<close>

fun attach_shows :: "json \<Rightarrow> json \<Rightarrow> json list \<Rightarrow> json list \<Rightarrow> py_error + json list" where
  "attach_shows account tour [] all_shows = Inr all_shows"
| "attach_shows account tour (show # shows) all_shows =
     bind_err (set_item show ''account'' account) (\<lambda>show1.
     bind_err (set_item show1 ''tour'' tour) (\<lambda>show2.
     attach_shows account tour shows (all_shows @ [show2])))"

text \<open>
  The loop over the tours of an account. The log line evaluates
  \<^verbatim>\<open>tour['tourName']\<close> before the shows are fetched.
\<close>

fun tours_loop ::
  "api \<Rightarrow> string \<Rightarrow> string \<Rightarrow> json \<Rightarrow> json list \<Rightarrow> json list \<Rightarrow> json list action"
where
  "tours_loop api start_date end_date account [] all_shows = pure_step (Inr all_shows)"
| "tours_loop api start_date end_date account (tour # tours) all_shows =
     then_do (pure_step (subscript tour ''tourName'')) (\<lambda>tour_name.
     then_do (pure_step (subscript tour ''uuid'')) (\<lambda>tour_uuid.
     then_do (fetch_shows api tour_uuid start_date end_date) (\<lambda>shows.
     then_do (pure_step (attach_shows account tour shows all_shows)) (\<lambda>all_shows'.
     tours_loop api start_date end_date account tours all_shows'))))"

text \<open>
  The loop over the accounts. The log line evaluates \<^verbatim>\<open>account['artistName']\<close>
  before the tours are fetched.
\<close>

fun accounts_loop ::
  "api \<Rightarrow> string \<Rightarrow> string \<Rightarrow> json list \<Rightarrow> json list \<Rightarrow> json list action"
where
  "accounts_loop api start_date end_date [] all_shows = pure_step (Inr all_shows)"
| "accounts_loop api start_date end_date (account # accounts) all_shows =
     then_do (pure_step (subscript account ''artistName'')) (\<lambda>artist_name.
     then_do (pure_step (subscript account ''uuid'')) (\<lambda>account_uuid.
     then_do (fetch_tours api account_uuid) (\<lambda>tours.
     then_do (tours_loop api start_date end_date account tours all_shows) (\<lambda>all_shows'.
     accounts_loop api start_date end_date accounts all_shows'))))"

text \<open>\<^verbatim>\<open>fetch_shows_in_date_range\<close>.\<close>

definition fetch_shows_in_date_range :: "api \<Rightarrow> string \<Rightarrow> string \<Rightarrow> json list action" where
  "fetch_shows_in_date_range api start_date end_date =
     then_do (fetch_accounts api) (\<lambda>accounts.
     accounts_loop api start_date end_date accounts [])"

section \<open>The sold quantity\<close>

text \<open>
  \<^verbatim>\<open>sum((add.get('quantity', 0) or 0) for add in ...)\<close>: the generator is consumed
  one element at a time, each element added to the running total before the next is
  looked at.
\<close>

fun sum_adds :: "int \<Rightarrow> json list \<Rightarrow> py_error + int" where
  "sum_adds acc [] = Inr acc"
| "sum_adds acc (add # adds) =
     bind_err (dict_get add ''quantity'' (JInt 0)) (\<lambda>q.
     bind_err (py_num (py_or q (JInt 0))) (\<lambda>n.
     sum_adds (acc + n) adds))"

text \<open>\<^verbatim>\<open>AtVenuDataFetcher.calculate_sold\<close>.\<close>

definition calculate_sold :: "json \<Rightarrow> py_error + int" where
  "calculate_sold count =
     bind_err (dict_get count ''countIn'' (JInt 0)) (\<lambda>ci. let count_in = py_or ci (JInt 0) in
     bind_err (dict_get count ''countOut'' (JInt 0)) (\<lambda>co. let count_out = py_or co (JInt 0) in
     bind_err (dict_get count ''comps'' (JInt 0)) (\<lambda>cm. let comps = py_or cm (JInt 0) in
     bind_err (dict_get count ''merchAdds'' (JList [])) (\<lambda>ma.
     bind_err (py_iter ma) (\<lambda>add_list.
     bind_err (sum_adds 0 add_list) (\<lambda>adds.
     bind_err (py_num count_in) (\<lambda>a.
     bind_err (py_num count_out) (\<lambda>b.
     bind_err (py_num comps) (\<lambda>c.
     Inr (a + adds - b - c))))))))))"

section \<open>Join and derivation\<close>

text \<open>
  The filter of both generator expressions of \<^verbatim>\<open>fetch_all_data\<close>:
  \<^verbatim>\<open>variant['uuid'] == count['merchVariantUuid']\<close>, the left side evaluated first.
\<close>

definition variant_matches :: "json \<Rightarrow> json \<Rightarrow> py_error + bool" where
  "variant_matches variant count =
     bind_err (subscript variant ''uuid'') (\<lambda>variant_uuid.
     bind_err (subscript count ''merchVariantUuid'') (\<lambda>count_uuid.
     Inr (py_eq variant_uuid count_uuid)))"

text \<open>
  The inner \<^verbatim>\<open>for variant in item['merchVariants']\<close> of the first generator: whether
  some variant passes the filter. A generator is lazy: the variants after the first
  match are not looked at.
\<close>

fun any_variant_matches :: "json list \<Rightarrow> json \<Rightarrow> py_error + bool" where
  "any_variant_matches [] count = Inr False"
| "any_variant_matches (variant # variants) count =
     bind_err (variant_matches variant count) (\<lambda>m.
     if m then Inr True else any_variant_matches variants count)"

text \<open>
  \<^verbatim>\<open>next((item for item in merchandise for variant in item['merchVariants'] if ...), None)\<close>:
  the first item with a matching variant, \<^verbatim>\<open>None\<close> when there is none.
\<close>

fun find_merch_item :: "json list \<Rightarrow> json \<Rightarrow> py_error + json" where
  "find_merch_item [] count = Inr JNull"
| "find_merch_item (item # items) count =
     bind_err (subscript item ''merchVariants'') (\<lambda>merch_variants.
     bind_err (py_iter merch_variants) (\<lambda>variants.
     bind_err (any_variant_matches variants count) (\<lambda>m.
     if m then Inr item else find_merch_item items count)))"

text \<open>
  \<^verbatim>\<open>next((v for v in merch_item['merchVariants'] if ...), None)\<close>: the first matching
  variant of the item, \<^verbatim>\<open>None\<close> when there is none.
\<close>

fun first_matching_variant :: "json list \<Rightarrow> json \<Rightarrow> py_error + json" where
  "first_matching_variant [] count = Inr JNull"
| "first_matching_variant (v # vs) count =
     bind_err (variant_matches v count) (\<lambda>m.
     if m then Inr v else first_matching_variant vs count)"

definition find_variant :: "json \<Rightarrow> json \<Rightarrow> py_error + json" where
  "find_variant merch_item count =
     bind_err (subscript merch_item ''merchVariants'') (\<lambda>merch_variants.
     bind_err (py_iter merch_variants) (\<lambda>variants.
     first_matching_variant variants count))"

text \<open>
  The dictionary appended to \<^verbatim>\<open>all_data\<close>. Its keys \<^verbatim>\<open>'Tour Name'\<close>,
  \<^verbatim>\<open>'Product Name'\<close> and \<^verbatim>\<open>'Show Date'\<close> are written with an underscore,
  \<^verbatim>\<open>'In'\<close> and \<^verbatim>\<open>'Out'\<close> are \<open>In_count\<close> and \<open>Out_count\<close>. \<open>Venue\<close> is the
  text of the f-string; \<open>str_of\<close> is Python's \<^verbatim>\<open>str\<close>, which the f-string applies to
  each of the three location fields.
\<close>

record sold_record =
  Band :: json
  Tour_Name :: json
  Venue :: string
  Product_Name :: json
  Size :: json
  SKU :: json
  In_count :: json
  Out_count :: json
  Sold :: int
  Show_Date :: json
  Price :: json

text \<open>\<^verbatim>\<open>variant['k'] if variant else 'N/A'\<close>.\<close>

definition variant_field :: "json \<Rightarrow> string \<Rightarrow> py_error + json" where
  "variant_field variant k = (if truthy variant then subscript variant k else Inr (JStr ''N/A''))"

text \<open>\<^verbatim>\<open>count['priceOverride'] or (variant['price'] if variant else 'N/A')\<close>.\<close>

definition resolve_price :: "json \<Rightarrow> json \<Rightarrow> py_error + json" where
  "resolve_price count variant =
     bind_err (subscript count ''priceOverride'') (\<lambda>price_override.
     if truthy price_override then Inr price_override else variant_field variant ''price'')"

text \<open>The dictionary literal: its values are evaluated in the order they are written.\<close>

definition make_record ::
  "(json \<Rightarrow> string) \<Rightarrow> json \<Rightarrow> json \<Rightarrow> json \<Rightarrow> json \<Rightarrow> int \<Rightarrow> py_error + sold_record"
where
  "make_record str_of show merch_item variant count sold =
     bind_err (path show [''account'', ''artistName'']) (\<lambda>band.
     bind_err (path show [''tour'', ''tourName'']) (\<lambda>tour_name.
     bind_err (path show [''location'', ''city'']) (\<lambda>city.
     bind_err (path show [''location'', ''stateProvince'']) (\<lambda>state_province.
     bind_err (path show [''location'', ''country'']) (\<lambda>country.
     bind_err (subscript merch_item ''name'') (\<lambda>name.
     bind_err (variant_field variant ''size'') (\<lambda>size_value.
     bind_err (variant_field variant ''sku'') (\<lambda>sku.
     bind_err (dict_get count ''countIn'' (JInt 0)) (\<lambda>count_in.
     bind_err (dict_get count ''countOut'' (JInt 0)) (\<lambda>count_out.
     bind_err (subscript show ''showDate'') (\<lambda>show_date.
     bind_err (resolve_price count variant) (\<lambda>price.
     Inr \<lparr>Band = band, Tour_Name = tour_name,
          Venue = str_of city @ '', '' @ str_of state_province @ '', '' @ str_of country,
          Product_Name = name, Size = size_value, SKU = sku,
          In_count = py_or count_in (JInt 0), Out_count = py_or count_out (JInt 0),
          Sold = sold, Show_Date = show_date, Price = price\<rparr>))))))))))))"

text \<open>
  The body of \<^verbatim>\<open>for count in counts\<close>: the record the count adds to \<^verbatim>\<open>all_data\<close>,
  if any.
\<close>

definition process_count ::
  "(json \<Rightarrow> string) \<Rightarrow> json \<Rightarrow> json list \<Rightarrow> json \<Rightarrow> py_error + sold_record option"
where
  "process_count str_of show merchandise count =
     bind_err (find_merch_item merchandise count) (\<lambda>merch_item.
     if truthy merch_item then
       bind_err (find_variant merch_item count) (\<lambda>variant.
       bind_err (calculate_sold count) (\<lambda>sold.
       bind_err (make_record str_of show merch_item variant count sold) (\<lambda>r.
       Inr (Some r))))
     else Inr None)"

fun process_counts ::
  "(json \<Rightarrow> string) \<Rightarrow> json \<Rightarrow> json list \<Rightarrow> json list \<Rightarrow> sold_record list
   \<Rightarrow> py_error + sold_record list"
where
  "process_counts str_of show merchandise [] all_data = Inr all_data"
| "process_counts str_of show merchandise (count # counts) all_data =
     bind_err (process_count str_of show merchandise count) (\<lambda>r.
     process_counts str_of show merchandise counts
       (case r of None \<Rightarrow> all_data | Some row \<Rightarrow> all_data @ [row]))"

text \<open>
  \<^verbatim>\<open>merchandise_cache\<close>: a dictionary from account identifiers to merchandise lists.
  Keys are found by \<^verbatim>\<open>==\<close>; an object that is not hashable cannot be looked up.
\<close>

type_synonym merchandise_cache = "(json \<times> json list) list"

fun cache_lookup :: "merchandise_cache \<Rightarrow> json \<Rightarrow> json list option" where
  "cache_lookup [] k = None"
| "cache_lookup ((k', v) # cache) k = (if py_eq k' k then Some v else cache_lookup cache k)"

text \<open>
  \<^verbatim>\<open>if account_uuid not in merchandise_cache: merchandise_cache[account_uuid] = ...\<close>
  followed by \<^verbatim>\<open>merchandise = merchandise_cache[account_uuid]\<close>: the cache after
  the step, and the merchandise of the account.
\<close>

definition cached_merchandise ::
  "api \<Rightarrow> merchandise_cache \<Rightarrow> json \<Rightarrow> (merchandise_cache \<times> json list) action"
where
  "cached_merchandise api cache account_uuid =
     (if \<not> hashable account_uuid then pure_step (Inl TypeError)
      else case cache_lookup cache account_uuid of
             Some merchandise \<Rightarrow> pure_step (Inr (cache, merchandise))
           | None \<Rightarrow>
               then_do (fetch_merchandise api account_uuid) (\<lambda>merchandise.
               pure_step (Inr ((account_uuid, merchandise) # cache, merchandise))))"

text \<open>
  \<^verbatim>\<open>for show in shows\<close> of \<^verbatim>\<open>fetch_all_data\<close>. The log line evaluates
  \<^verbatim>\<open>show['uuid']\<close> and \<^verbatim>\<open>show['showDate']\<close> first.
\<close>

fun shows_loop ::
  "api \<Rightarrow> (json \<Rightarrow> string) \<Rightarrow> json list \<Rightarrow> merchandise_cache \<Rightarrow> sold_record list
   \<Rightarrow> sold_record list action"
where
  "shows_loop api str_of [] cache all_data = pure_step (Inr all_data)"
| "shows_loop api str_of (show # shows) cache all_data =
     then_do (pure_step (subscript show ''uuid'')) (\<lambda>show_uuid.
     then_do (pure_step (subscript show ''showDate'')) (\<lambda>show_date.
     then_do (pure_step (path show [''account'', ''uuid''])) (\<lambda>account_uuid.
     then_do (cached_merchandise api cache account_uuid) (\<lambda>(cache', merchandise).
     then_do (fetch_counts api show_uuid) (\<lambda>counts.
     then_do (pure_step (process_counts str_of show merchandise counts all_data)) (\<lambda>all_data'.
     shows_loop api str_of shows cache' all_data'))))))"

text \<open>\<^verbatim>\<open>AtVenuDataFetcher.fetch_all_data\<close>.\<close>

definition fetch_all_data ::
  "api \<Rightarrow> (json \<Rightarrow> string) \<Rightarrow> string \<Rightarrow> string \<Rightarrow> sold_record list action"
where
  "fetch_all_data api str_of start_date end_date =
     then_do (fetch_shows_in_date_range api start_date end_date) (\<lambda>shows.
     shows_loop api str_of shows [] [])"

section \<open>The export table\<close>

text \<open>
  A cell of the data frame \<^verbatim>\<open>main\<close> builds from the fetched records: a Python
  object, or, in a column that the frame stores as 64-bit floats, the float that stands
  for an integer or the missing value \<open>NaN\<close>. \<open>Float64 n\<close> is the float nearest to \<open>n\<close>;
  which float that is, is not computed here.
\<close>

datatype cell =
    Cell json
  | Float64 int
  | NaN

text \<open>The frame: its column names and its rows of cells.\<close>

record table =
  columns :: "string list"
  rows :: "cell list list"

text \<open>
  The column \<^verbatim>\<open>pd.DataFrame\<close> makes of the values under one key. Values that are
  integers of 64 signed bits and nulls, with at least one of each, become a column of
  floats: each integer its float, each null \<open>NaN\<close>. A column that holds a string, or
  integers only, or nulls only, keeps its values as they are, and so does every other
  mixture here.
\<close>

definition int64_or_null :: "json \<Rightarrow> bool" where
  "int64_or_null v =
     (case v of JNull \<Rightarrow> True | JInt n \<Rightarrow> - (2 ^ 63) \<le> n \<and> n < 2 ^ 63 | _ \<Rightarrow> False)"

definition frame_column :: "json list \<Rightarrow> cell list" where
  "frame_column vs =
     (if list_all int64_or_null vs \<and> list_ex (\<lambda>v. v = JNull) vs \<and> list_ex (\<lambda>v. v \<noteq> JNull) vs
      then map (\<lambda>v. case v of JInt n \<Rightarrow> Float64 n | _ \<Rightarrow> NaN) vs
      else map Cell vs)"

text \<open>
  \<^verbatim>\<open>df['Band'] + " - " + df['Tour Name']\<close>, for one row: strings are concatenated,
  a missing value gives a missing value, anything else cannot be added to a string.
\<close>

fun location_cell :: "json \<Rightarrow> json \<Rightarrow> py_error + cell" where
  "location_cell JNull tour_name = Inr NaN"
| "location_cell (JStr band) tour_name =
     (case tour_name of
        JStr tour \<Rightarrow> Inr (Cell (JStr (band @ '' - '' @ tour)))
      | JNull \<Rightarrow> Inr NaN
      | _ \<Rightarrow> Inl TypeError)"
| "location_cell _ tour_name = Inl TypeError"

fun location_column :: "sold_record list \<Rightarrow> py_error + cell list" where
  "location_column [] = Inr []"
| "location_column (r # rs) =
     bind_err (location_cell (Band r) (Tour_Name r)) (\<lambda>c.
     bind_err (location_column rs) (\<lambda>cs. Inr (c # cs)))"

text \<open>
  \<^verbatim>\<open>-df['Sold']\<close>. A column of integers that all fit 64 signed bits is stored as
  such, and its negation wraps; one of non-negative integers that fit 64 unsigned bits
  is stored unsigned, and its negation wraps too; any other column holds Python integers.
\<close>

definition negate_column :: "int list \<Rightarrow> int list" where
  "negate_column vs =
     (if list_all (\<lambda>v. - (2 ^ 63) \<le> v \<and> v < 2 ^ 63) vs
      then map (\<lambda>v. sint (- (word_of_int v :: 64 word))) vs
      else if list_all (\<lambda>v. 0 \<le> v \<and> v < 2 ^ 64) vs
      then map (\<lambda>v. uint (- (word_of_int v :: 64 word))) vs
      else map uminus vs)"

text \<open>
  Lines 361 to 366 of \<^verbatim>\<open>main\<close>. A data frame made from an empty list has no
  columns, so \<^verbatim>\<open>df['Band']\<close> raises \<^verbatim>\<open>KeyError\<close> there. The SKU cells are those
  of the frame's SKU column; \<^verbatim>\<open>Action\<close> and \<^verbatim>\<open>Reason\<close> are constant columns.
\<close>

definition export_table :: "sold_record list \<Rightarrow> py_error + table" where
  "export_table data =
     (if data = [] then Inl KeyError
      else bind_err (location_column data) (\<lambda>location.
           let sku = frame_column (map SKU data);
               quantity = negate_column (map Sold data) in
           Inr \<lparr>columns = [''SKU'', ''Action'', ''Quantity'', ''Location'', ''Reason''],
                rows = map (\<lambda>(s, q, l).
                              [s, Cell (JStr ''Replace''), Cell (JInt q), l,
                               Cell (JStr ''Nightly Sales'')])
                         (zip sku (zip quantity location))\<rparr>))"

section \<open>The sold quantity as the specification states it\<close>

text \<open>A field that is missing or null, or else an integer.\<close>

definition absent_or_int :: "json option \<Rightarrow> bool" where
  "absent_or_int v =
     (case v of None \<Rightarrow> True | Some JNull \<Rightarrow> True | Some (JInt n) \<Rightarrow> True | Some _ \<Rightarrow> False)"

text \<open>The number the specification reads in a field: zero when it is missing or null.\<close>

definition zero_if_absent :: "json option \<Rightarrow> int" where
  "zero_if_absent v = (case v of Some (JInt n) \<Rightarrow> n | _ \<Rightarrow> 0)"

definition field_of :: "json \<Rightarrow> string \<Rightarrow> json option" where
  "field_of x k = (case x of JObj kvs \<Rightarrow> map_of kvs k | _ \<Rightarrow> None)"

definition is_obj :: "json \<Rightarrow> bool" where
  "is_obj x = (case x of JObj kvs \<Rightarrow> True | _ \<Rightarrow> False)"

text \<open>The list of adds of a count record: empty when the field is missing.\<close>

definition adds_of :: "json \<Rightarrow> json list option" where
  "adds_of count =
     (case field_of count ''merchAdds'' of None \<Rightarrow> Some [] | Some (JList xs) \<Rightarrow> Some xs
      | Some _ \<Rightarrow> None)"

definition wf_add :: "json \<Rightarrow> bool" where
  "wf_add a = (is_obj a \<and> absent_or_int (field_of a ''quantity''))"

definition wf_count :: "json \<Rightarrow> bool" where
  "wf_count count =
     (is_obj count \<and> absent_or_int (field_of count ''countIn'')
      \<and> absent_or_int (field_of count ''countOut'') \<and> absent_or_int (field_of count ''comps'')
      \<and> (case adds_of count of None \<Rightarrow> False | Some adds \<Rightarrow> list_all wf_add adds))"

definition spec_sold :: "json \<Rightarrow> int" where
  "spec_sold count =
     zero_if_absent (field_of count ''countIn'')
     + sum_list (map (\<lambda>a. zero_if_absent (field_of a ''quantity'')) (case adds_of count of None \<Rightarrow> [] | Some adds \<Rightarrow> adds))
     - zero_if_absent (field_of count ''countOut'')
     - zero_if_absent (field_of count ''comps'')"

section \<open>Pages as the service sends them\<close>

text \<open>
  The content of one page of a connection: its nodes, whether another page follows,
  and the cursor of that next page.
\<close>

record page =
  nodes :: "json list"
  has_next :: bool
  end_cursor :: json

text \<open>
  A page of counts comes inside the first settlement of the show; the reply may list
  more settlements after it.
\<close>

record counts_page = page +
  settlement_path :: json
  later_settlements :: "json list"

text \<open>The connection object of a page, as the query documents ask for it.\<close>

definition connection_json :: "'a page_scheme \<Rightarrow> json" where
  "connection_json p =
     JObj [(''pageInfo'', JObj [(''hasNextPage'', JBool (has_next p)),
                               (''endCursor'', end_cursor p)]),
           (''nodes'', JList (nodes p))]"

text \<open>The reply to each of the five queries that carries a given page.\<close>

definition accounts_body :: "'a page_scheme \<Rightarrow> json" where
  "accounts_body p =
     JObj [(''data'', JObj [(''organization'', JObj [(''accounts'', connection_json p)])])]"

definition tours_body :: "'a page_scheme \<Rightarrow> json" where
  "tours_body p = JObj [(''data'', JObj [(''account'', JObj [(''tours'', connection_json p)])])]"

definition shows_body :: "'a page_scheme \<Rightarrow> json" where
  "shows_body p = JObj [(''data'', JObj [(''tour'', JObj [(''shows'', connection_json p)])])]"

definition merchandise_body :: "json \<Rightarrow> 'a page_scheme \<Rightarrow> json" where
  "merchandise_body account_uuid p =
     JObj [(''data'', JObj [(''account'',
        JObj [(''uuid'', account_uuid), (''merchItems'', connection_json p)])])]"

definition settlement_json :: "'a counts_page_scheme \<Rightarrow> json" where
  "settlement_json p = JObj [(''path'', settlement_path p), (''mainCounts'', connection_json p)]"

definition counts_body :: "'a counts_page_scheme \<Rightarrow> json" where
  "counts_body p =
     JObj [(''data'', JObj [(''show'',
        JObj [(''settlements'', JList (settlement_json p # later_settlements p))])])]"

text \<open>The parsed body of a reply with status 200.\<close>

definition ok_body :: "http_result \<Rightarrow> json option" where
  "ok_body r =
     (case r of No_response \<Rightarrow> None
      | Response status_code text body \<Rightarrow> if status_code = 200 then body else None)"

text \<open>
  The service serves the pages \<open>ps\<close>, in this order, to a collector that has sent
  \<open>hist\<close> before and starts at \<open>cursor\<close>: each request for the current cursor is
  answered with the next page, every page but the last announces a next page, and the
  last one does not.
\<close>

fun served ::
  "api \<Rightarrow> (json \<Rightarrow> request) \<Rightarrow> ('a page_scheme \<Rightarrow> json) \<Rightarrow> request list \<Rightarrow> json
   \<Rightarrow> 'a page_scheme list \<Rightarrow> bool"
where
  "served api mk body hist cursor [] = False"
| "served api mk body hist cursor (p # ps) =
     (ok_body (api (hist @ [mk cursor])) = Some (body p)
      \<and> (if has_next p then served api mk body (hist @ [mk cursor]) (end_cursor p) ps
         else ps = []))"

text \<open>
  What the specification expects of a collector that was served \<open>ps\<close>: all the
  nodes in page order, and one request per page, the first with no cursor and each
  later one with the end cursor of the page before.
\<close>

definition collected ::
  "(json \<Rightarrow> request) \<Rightarrow> 'a page_scheme list \<Rightarrow> world \<Rightarrow> ((py_error + json list) \<times> world) option"
where
  "collected mk ps w =
     Some (Inr (concat (map nodes ps)),
           w\<lparr>sent := sent w @ map mk (JNull # map end_cursor (butlast ps))\<rparr>)"

section \<open>Merchandise as the service sends it\<close>

text \<open>The variants of a merchandise item, when it lists them.\<close>

definition variants_of :: "json \<Rightarrow> json list" where
  "variants_of item = (case field_of item ''merchVariants'' of Some (JList vs) \<Rightarrow> vs | _ \<Rightarrow> [])"

text \<open>An item as the merchandise query asks for it: a list of variants, each with a uuid.\<close>

definition wf_item :: "json \<Rightarrow> bool" where
  "wf_item item =
     (case field_of item ''merchVariants'' of
        Some (JList vs) \<Rightarrow> list_all (\<lambda>v. field_of v ''uuid'' \<noteq> None) vs
      | _ \<Rightarrow> False)"

text \<open>No variant of the merchandise has the identifier \<open>u\<close>.\<close>

definition no_variant_has :: "json list \<Rightarrow> json \<Rightarrow> bool" where
  "no_variant_has merchandise u =
     list_all (\<lambda>item. list_all (\<lambda>v. case field_of v ''uuid'' of None \<Rightarrow> True
                                     | Some vu \<Rightarrow> \<not> py_eq vu u) (variants_of item))
       merchandise"

text \<open>How often an account identifier occurs among the entries of \<^verbatim>\<open>fetch_merchandise\<close>.\<close>

definition fetches_for :: "json \<Rightarrow> world \<Rightarrow> nat" where
  "fetches_for u w = length (filter (\<lambda>v. py_eq v u) (merch_calls w))"

text \<open>A step that never enters \<^verbatim>\<open>fetch_merchandise\<close>.\<close>

definition keeps_calls :: "'a action \<Rightarrow> bool" where
  "keeps_calls m = (\<forall>w r w'. m w = Some (r, w') \<longrightarrow> merch_calls w' = merch_calls w)"

text \<open>The text of a string cell.\<close>

definition text_of :: "json \<Rightarrow> string" where
  "text_of x = (case x of JStr s \<Rightarrow> s | _ \<Rightarrow> [])"




section \<open>Scripted services\<close>

text \<open>The state before the first request.\<close>

definition fresh :: world where
  "fresh = \<lparr>sent = [], merch_calls = []\<rparr>"

text \<open>
  A service that serves every collection in three pages: the first page to a request
  without cursor, the second to the cursor \<open>c1\<close>, the last to any other cursor.
\<close>

definition three_pages :: "counts_page list" where
  "three_pages =
     [\<lparr>nodes = [JStr ''n1'', JStr ''n2''], has_next = True, end_cursor = JStr ''c1'',
       settlement_path = JStr ''s'', later_settlements = []\<rparr>,
      \<lparr>nodes = [JStr ''n3''], has_next = True, end_cursor = JStr ''c2'',
       settlement_path = JStr ''s'', later_settlements = []\<rparr>,
      \<lparr>nodes = [JStr ''n4''], has_next = False, end_cursor = JNull,
       settlement_path = JStr ''s'', later_settlements = []\<rparr>]"

definition page_at :: "json \<Rightarrow> counts_page" where
  "page_at cursor =
     (if cursor = JNull then three_pages ! 0
      else if cursor = JStr ''c1'' then three_pages ! 1
      else three_pages ! 2)"

definition three_page_api :: api where
  "three_page_api hist =
     Response 200 []
       (Some (case last hist of
                Accounts_query cursor \<Rightarrow> accounts_body (page_at cursor)
              | Tours_query u cursor \<Rightarrow> tours_body (page_at cursor)
              | Shows_query u start_date end_date cursor \<Rightarrow> shows_body (page_at cursor)
              | Merchandise_query u cursor \<Rightarrow> merchandise_body u (page_at cursor)
              | Counts_query u cursor \<Rightarrow> counts_body (page_at cursor)))"

text \<open>A show with two settlements, each with one count of its own.\<close>

definition two_settlements_page :: counts_page where
  "two_settlements_page =
     \<lparr>nodes = [JObj [(''merchVariantUuid'', JStr ''var-1''), (''countIn'', JInt 10)]],
      has_next = False, end_cursor = JNull, settlement_path = JStr ''main'',
      later_settlements =
        [JObj [(''path'', JStr ''vip''),
               (''mainCounts'',
                JObj [(''pageInfo'', JObj [(''hasNextPage'', JBool False),
                                          (''endCursor'', JNull)]),
                      (''nodes'', JList [JObj [(''merchVariantUuid'', JStr ''var-2''),
                                              (''countIn'', JInt 7)]])])]]\<rparr>"

definition two_settlements_api :: api where
  "two_settlements_api hist = Response 200 [] (Some (counts_body two_settlements_page))"

text \<open>A show that has no settlement yet.\<close>

definition no_settlement_api :: api where
  "no_settlement_api hist =
     Response 200 []
       (Some (JObj [(''data'', JObj [(''show'', JObj [(''settlements'', JList [])])])]))"

text \<open>A reply with status 200 whose error list is present and empty.\<close>

definition empty_errors_body :: json where
  "empty_errors_body = JObj [(''errors'', JList []), (''data'', JObj [])]"

definition empty_errors_api :: api where
  "empty_errors_api hist = Response 200 [] (Some empty_errors_body)"

text \<open>A reply with status 500 whose text is not JSON.\<close>

definition server_error_api :: api where
  "server_error_api hist = Response 500 ''Internal Server Error'' None"

text \<open>A reply with status 200 whose text is not JSON.\<close>

definition not_json_api :: api where
  "not_json_api hist = Response 200 ''<html></html>'' None"

text \<open>
  One account (BandX) with one tour (TourY), two shows in range, a catalogue of one
  item with the variants A1 and B2, and for every show three counts: one of A1 with no
  price override, one of B2 with an override, one of a variant the catalogue lacks.
  \<open>demo_count_free\<close> is the count of A1 with a price override of zero.
\<close>

definition demo_account :: json where
  "demo_account = JObj [(''uuid'', JStr ''acc-1''), (''artistName'', JStr ''BandX'')]"

definition demo_tour :: json where
  "demo_tour = JObj [(''uuid'', JStr ''tour-1''), (''tourName'', JStr ''TourY'')]"

definition demo_show :: "string \<Rightarrow> json" where
  "demo_show uuid =
     JObj [(''uuid'', JStr uuid), (''showDate'', JStr ''2024-08-13''),
           (''location'', JObj [(''city'', JStr ''Austin''), (''stateProvince'', JStr ''TX''),
                               (''country'', JStr ''US'')])]"

definition demo_variant_a :: json where
  "demo_variant_a =
     JObj [(''sku'', JStr ''A1''), (''size'', JStr ''M''), (''uuid'', JStr ''var-1''),
           (''price'', JInt 25)]"

definition demo_variant_b :: json where
  "demo_variant_b =
     JObj [(''sku'', JStr ''B2''), (''size'', JStr ''L''), (''uuid'', JStr ''var-2''),
           (''price'', JInt 30)]"

definition demo_item :: json where
  "demo_item =
     JObj [(''name'', JStr ''Tee''), (''category'', JStr ''Apparel''), (''uuid'', JStr ''item-1''),
           (''merchVariants'', JList [demo_variant_a, demo_variant_b])]"

definition demo_count_a :: json where
  "demo_count_a =
     JObj [(''merchVariantUuid'', JStr ''var-1''), (''priceOverride'', JNull),
           (''countIn'', JInt 10), (''countOut'', JNull), (''comps'', JInt 2),
           (''merchAdds'', JList [])]"

definition demo_count_b :: json where
  "demo_count_b =
     JObj [(''merchVariantUuid'', JStr ''var-2''), (''priceOverride'', JInt 20),
           (''countIn'', JInt 5), (''countOut'', JInt 1), (''comps'', JNull),
           (''merchAdds'', JList [JObj [(''quantity'', JInt 3)]])]"

definition demo_count_free :: json where
  "demo_count_free =
     JObj [(''merchVariantUuid'', JStr ''var-1''), (''priceOverride'', JInt 0),
           (''countIn'', JInt 10), (''countOut'', JNull), (''comps'', JInt 2),
           (''merchAdds'', JList [])]"

definition demo_count_unknown :: json where
  "demo_count_unknown =
     JObj [(''merchVariantUuid'', JStr ''var-9''), (''priceOverride'', JNull),
           (''countIn'', JInt 4), (''countOut'', JInt 4), (''comps'', JInt 0),
           (''merchAdds'', JList [])]"

definition single_page :: "json list \<Rightarrow> counts_page" where
  "single_page ns =
     \<lparr>nodes = ns, has_next = False, end_cursor = JNull, settlement_path = JStr ''main'',
      later_settlements = []\<rparr>"

definition demo_api :: api where
  "demo_api hist =
     Response 200 []
       (Some (case last hist of
                Accounts_query cursor \<Rightarrow> accounts_body (single_page [demo_account])
              | Tours_query u cursor \<Rightarrow> tours_body (single_page [demo_tour])
              | Shows_query u start_date end_date cursor \<Rightarrow>
                  shows_body (single_page [demo_show ''show-1'', demo_show ''show-2''])
              | Merchandise_query u cursor \<Rightarrow> merchandise_body u (single_page [demo_item])
              | Counts_query u cursor \<Rightarrow>
                  counts_body (single_page [demo_count_a, demo_count_unknown, demo_count_b])))"

text \<open>The show of the demo service after the walk has attached its account and tour.\<close>

definition demo_show_attached :: "string \<Rightarrow> json" where
  "demo_show_attached uuid =
     JObj [(''uuid'', JStr uuid), (''showDate'', JStr ''2024-08-13''),
           (''location'', JObj [(''city'', JStr ''Austin''), (''stateProvince'', JStr ''TX''),
                               (''country'', JStr ''US'')]),
           (''account'', demo_account), (''tour'', demo_tour)]"

text \<open>The records of the demo service's counts of A1 and of B2.\<close>

definition demo_record_a :: sold_record where
  "demo_record_a =
     \<lparr>Band = JStr ''BandX'', Tour_Name = JStr ''TourY'', Venue = ''Austin, TX, US'',
      Product_Name = JStr ''Tee'', Size = JStr ''M'', SKU = JStr ''A1'', In_count = JInt 10,
      Out_count = JInt 0, Sold = 8, Show_Date = JStr ''2024-08-13'', Price = JInt 25\<rparr>"

definition demo_record_b :: sold_record where
  "demo_record_b =
     \<lparr>Band = JStr ''BandX'', Tour_Name = JStr ''TourY'', Venue = ''Austin, TX, US'',
      Product_Name = JStr ''Tee'', Size = JStr ''L'', SKU = JStr ''B2'', In_count = JInt 5,
      Out_count = JInt 1, Sold = 7, Show_Date = JStr ''2024-08-13'', Price = JInt 20\<rparr>"

text \<open>The state after a full fetch from the demo service.\<close>

definition demo_final :: world where
  "demo_final =
     \<lparr>sent = [Accounts_query JNull,
              Tours_query (JStr ''acc-1'') JNull,
              Shows_query (JStr ''tour-1'') ''2024-08-13'' ''2024-08-13'' JNull,
              Merchandise_query (JStr ''acc-1'') JNull,
              Counts_query (JStr ''show-1'') JNull,
              Counts_query (JStr ''show-2'') JNull],
      merch_calls = [JStr ''acc-1'']\<rparr>"

section \<open>Properties of the sold quantity\<close>

lemma or_zero_num:
  "absent_or_int v \<Longrightarrow>
   py_num (py_or (case v of None \<Rightarrow> JInt 0 | Some x \<Rightarrow> x) (JInt 0)) = Inr (zero_if_absent v)"
  by (auto simp: absent_or_int_def zero_if_absent_def py_or_def
      split: option.splits json.splits)

lemma sum_adds_wf:
  "list_all wf_add adds \<Longrightarrow>
   sum_adds acc adds
     = Inr (acc + sum_list (map (\<lambda>a. zero_if_absent (field_of a ''quantity'')) adds))"
proof (induction adds arbitrary: acc)
  case Nil
  then show ?case by simp
next
  case (Cons a adds)
  from Cons.prems have wa: "wf_add a" and rest: "list_all wf_add adds"
    by simp_all
  from wa obtain kvs where a: "a = JObj kvs" and q: "absent_or_int (map_of kvs ''quantity'')"
    by (cases a) (simp_all add: wf_add_def is_obj_def field_of_def)
  have "py_num (py_or (case map_of kvs ''quantity'' of None \<Rightarrow> JInt 0 | Some x \<Rightarrow> x) (JInt 0))
        = Inr (zero_if_absent (map_of kvs ''quantity''))"
    by (rule or_zero_num [OF q])
  then show ?case
    using Cons.IH [OF rest] a
    by (simp add: bind_err_def field_of_def split: option.splits)
qed

text \<open>
  C1. For every count record whose numeric fields are integers where they are present
  and not null, \<open>calculate_sold\<close> returns count-in plus the sum of the add quantities minus
  count-out minus comps, reading every missing or null field as zero.
\<close>

theorem calculate_sold_formula:
  "wf_count count \<Longrightarrow> calculate_sold count = Inr (spec_sold count)"
proof -
  assume wf: "wf_count count"
  then obtain kvs where c: "count = JObj kvs"
    by (auto simp: wf_count_def is_obj_def split: json.splits)
  from wf c obtain adds where adds: "adds_of (JObj kvs) = Some adds"
    and wfa: "list_all wf_add adds"
    by (auto simp: wf_count_def split: option.splits)
  from wf c have ci: "absent_or_int (map_of kvs ''countIn'')"
    and co: "absent_or_int (map_of kvs ''countOut'')"
    and cm: "absent_or_int (map_of kvs ''comps'')"
    by (simp_all add: wf_count_def field_of_def)
  have it: "bind_err (dict_get (JObj kvs) ''merchAdds'' (JList [])) py_iter = Inr adds"
    using adds by (auto simp: adds_of_def field_of_def bind_err_def split: option.splits json.splits)
  have it': "\<And>f. bind_err (dict_get (JObj kvs) ''merchAdds'' (JList []))
                (\<lambda>ma. bind_err (py_iter ma) f) = f adds"
    using it by (auto simp: bind_err_def split: sum.splits)
  show ?thesis
    unfolding c calculate_sold_def Let_def it'
    using or_zero_num [OF ci] or_zero_num [OF co] or_zero_num [OF cm]
      sum_adds_wf [OF wfa, of 0] adds
    by (simp add: bind_err_def spec_sold_def field_of_def split: option.splits)
qed

theorem calculate_sold_formula_witness:
  "wf_count (JObj [(''countIn'', JInt 10), (''countOut'', JNull), (''comps'', JInt 2),
                   (''merchAdds'', JList [])])
   \<and> calculate_sold (JObj [(''countIn'', JInt 10), (''countOut'', JNull), (''comps'', JInt 2),
                   (''merchAdds'', JList [])]) = Inr 8"
proof -
  have wf: "wf_count (JObj [(''countIn'', JInt 10), (''countOut'', JNull), (''comps'', JInt 2),
                   (''merchAdds'', JList [])])"
    by (simp add: wf_count_def is_obj_def absent_or_int_def field_of_def adds_of_def)
  show ?thesis
    using wf calculate_sold_formula [OF wf]
    by (simp add: spec_sold_def zero_if_absent_def field_of_def adds_of_def)
qed

section \<open>Properties of the collectors\<close>


lemma execute_query_ok:
  "ok_body (api (sent w @ [req])) = Some (JObj kvs) \<Longrightarrow> map_of kvs ''errors'' = None \<Longrightarrow>
   execute_query api req w = (Inr (JObj kvs), w\<lparr>sent := sent w @ [req]\<rparr>)"
  by (auto simp: execute_query_def ok_body_def bind_err_def Let_def
      split: http_result.splits if_splits option.splits)

lemma served_nonempty: "served api mk body hist c ps \<Longrightarrow> ps \<noteq> []"
  by (cases ps) auto

lemma paginate_served:
  assumes conn: "\<And>p acc. page_step conn (body p) acc
                   = Inr (acc @ nodes p, if has_next p then Some (end_cursor p) else None)"
    and obj: "\<And>p. \<exists>kvs. body p = JObj kvs \<and> map_of kvs ''errors'' = None"
  shows "served api mk body (sent w) c ps \<Longrightarrow>
         paginate api mk conn acc c w
           = Some (Inr (acc @ concat (map nodes ps)),
                   w\<lparr>sent := sent w @ map mk (c # map end_cursor (butlast ps))\<rparr>)"
proof (induction ps arbitrary: acc c w)
  case Nil
  then show ?case by simp
next
  case (Cons p ps)
  from obj obtain kvs where kvs: "body p = JObj kvs" "map_of kvs ''errors'' = None"
    by blast
  from Cons.prems have ok: "ok_body (api (sent w @ [mk c])) = Some (JObj kvs)"
    by (simp add: kvs)
  let ?w' = "w\<lparr>sent := sent w @ [mk c]\<rparr>"
  have ex: "execute_query api (mk c) w = (Inr (body p), ?w')"
    using ok kvs by (simp add: execute_query_ok)
  show ?case
  proof (cases "has_next p")
    case False
    with Cons.prems have "ps = []" by simp
    with False ex conn [of p acc] show ?thesis
      by (subst paginate.simps) simp
  next
    case True
    with Cons.prems have rest: "served api mk body (sent ?w') (end_cursor p) ps"
      by simp
    then have ne: "ps \<noteq> []" by (rule served_nonempty)
    have "paginate api mk conn acc c w = paginate api mk conn (acc @ nodes p) (end_cursor p) ?w'"
      using True ex conn [of p acc] by (subst paginate.simps) simp
    also have "\<dots> = Some (Inr ((acc @ nodes p) @ concat (map nodes ps)),
                 ?w'\<lparr>sent := sent ?w' @ map mk (end_cursor p # map end_cursor (butlast ps))\<rparr>)"
      by (rule Cons.IH [OF rest])
    finally show ?thesis using ne by simp
  qed
qed

text \<open>The number of requests of a collector that was served \<open>ps\<close> is the number of pages.\<close>

lemma collected_request_count:
  assumes "ps \<noteq> []" and "collected mk ps w = Some (r, w')"
  shows "length (sent w') = length (sent w) + length ps"
  using assms by (auto simp: collected_def)

text \<open>
  A collector that is never served a last page does not return: when every request is
  answered with a page that announces a next page, the loop has no result.
\<close>

lemma paginate_endless:
  assumes conn: "\<And>p acc. page_step conn (body p) acc
                   = Inr (acc @ nodes p, if has_next p then Some (end_cursor p) else None)"
    and obj: "\<And>p. \<exists>kvs. body p = JObj kvs \<and> map_of kvs ''errors'' = None"
    and endless: "\<And>hist c. \<exists>p. ok_body (api (hist @ [mk c])) = Some (body p) \<and> has_next p"
  shows "paginate api mk conn acc cursor w = None"
proof (rule ccontr)
  assume "paginate api mk conn acc cursor w \<noteq> None"
  then obtain y where y: "paginate api mk conn acc cursor w = Some y"
    by blast
  have "api = api \<and> mk = mk \<and> conn = conn \<longrightarrow> False"
  proof (rule paginate.raw_induct
      [where P = "\<lambda>api' mk' conn' acc cursor w y. api' = api \<and> mk' = mk \<and> conn' = conn \<longrightarrow> False",
        OF _ y], goal_cases)
    case (1 f api' mk' conn' acc cursor w y)
    show ?case
    proof
      assume eq: "api' = api \<and> mk' = mk \<and> conn' = conn"
      from endless obtain p where p: "ok_body (api (sent w @ [mk cursor])) = Some (body p)"
        and nxt: "has_next p"
        by blast
      from obj obtain kvs where kvs: "body p = JObj kvs" "map_of kvs ''errors'' = None"
        by blast
      let ?w' = "w\<lparr>sent := sent w @ [mk cursor]\<rparr>"
      have ex: "execute_query api (mk cursor) w = (Inr (body p), ?w')"
        using p kvs by (simp add: execute_query_ok)
      from 1(2) eq ex conn [of p acc] nxt
      have "f api mk conn (acc @ nodes p) (end_cursor p) ?w' = Some y"
        by simp
      from 1(1) [OF this] show False by simp
    qed
  qed
  then show False by simp
qed

lemma page_step_accounts:
  "page_step (\<lambda>result. path result [''data'', ''organization'', ''accounts'']) (accounts_body p) acc
     = Inr (acc @ nodes p, if has_next p then Some (end_cursor p) else None)"
  by (simp add: page_step_def accounts_body_def connection_json_def bind_err_def)

lemma page_step_tours:
  "page_step (\<lambda>result. path result [''data'', ''account'', ''tours'']) (tours_body p) acc
     = Inr (acc @ nodes p, if has_next p then Some (end_cursor p) else None)"
  by (simp add: page_step_def tours_body_def connection_json_def bind_err_def)

lemma page_step_shows:
  "page_step (\<lambda>result. path result [''data'', ''tour'', ''shows'']) (shows_body p) acc
     = Inr (acc @ nodes p, if has_next p then Some (end_cursor p) else None)"
  by (simp add: page_step_def shows_body_def connection_json_def bind_err_def)

lemma page_step_merchandise:
  "page_step (\<lambda>result. path result [''data'', ''account'', ''merchItems''])
     (merchandise_body u p) acc
     = Inr (acc @ nodes p, if has_next p then Some (end_cursor p) else None)"
  by (simp add: page_step_def merchandise_body_def connection_json_def bind_err_def)

lemma page_step_counts:
  "page_step counts_connection (counts_body p) acc
     = Inr (acc @ nodes p, if has_next p then Some (end_cursor p) else None)"
  by (simp add: page_step_def counts_body_def counts_connection_def settlement_json_def
      connection_json_def bind_err_def)

lemma fetch_accounts_served:
  assumes s: "served api Accounts_query accounts_body (sent w) JNull ps"
  shows "fetch_accounts api w = collected Accounts_query ps w"
proof -
  have obj: "\<And>p. \<exists>kvs. accounts_body p = JObj kvs \<and> map_of kvs ''errors'' = None"
    by (simp add: accounts_body_def)
  show ?thesis
    unfolding fetch_accounts_def collected_def
    using paginate_served [where acc = "[]", OF page_step_accounts obj s] by simp
qed

lemma fetch_tours_served:
  assumes s: "served api (Tours_query u) tours_body (sent w) JNull ps"
  shows "fetch_tours api u w = collected (Tours_query u) ps w"
proof -
  have obj: "\<And>p. \<exists>kvs. tours_body p = JObj kvs \<and> map_of kvs ''errors'' = None"
    by (simp add: tours_body_def)
  show ?thesis
    unfolding fetch_tours_def collected_def
    using paginate_served [where acc = "[]", OF page_step_tours obj s] by simp
qed

lemma fetch_shows_served:
  assumes s: "served api (Shows_query u sd ed) shows_body (sent w) JNull ps"
  shows "fetch_shows api u sd ed w = collected (Shows_query u sd ed) ps w"
proof -
  have obj: "\<And>p. \<exists>kvs. shows_body p = JObj kvs \<and> map_of kvs ''errors'' = None"
    by (simp add: shows_body_def)
  show ?thesis
    unfolding fetch_shows_def collected_def
    using paginate_served [where acc = "[]", OF page_step_shows obj s] by simp
qed

lemma fetch_merchandise_served:
  assumes s: "served api (Merchandise_query u) (merchandise_body u) (sent w) JNull ps"
  shows "fetch_merchandise api u w
     = collected (Merchandise_query u) ps (w\<lparr>merch_calls := merch_calls w @ [u]\<rparr>)"
proof -
  have obj: "\<And>p. \<exists>kvs. merchandise_body u p = JObj kvs \<and> map_of kvs ''errors'' = None"
    by (simp add: merchandise_body_def)
  have s': "served api (Merchandise_query u) (merchandise_body u)
              (sent (w\<lparr>merch_calls := merch_calls w @ [u]\<rparr>)) JNull ps"
    using s by simp
  show ?thesis
    unfolding fetch_merchandise_def collected_def
    using paginate_served [where acc = "[]", OF page_step_merchandise obj s'] by simp
qed

lemma fetch_counts_served:
  assumes s: "served api (Counts_query u) counts_body (sent w) JNull ps"
  shows "fetch_counts api u w = collected (Counts_query u) ps w"
proof -
  have obj: "\<And>p. \<exists>kvs. counts_body p = JObj kvs \<and> map_of kvs ''errors'' = None"
    by (simp add: counts_body_def)
  show ?thesis
    unfolding fetch_counts_def collected_def
    using paginate_served [where acc = "[]", OF page_step_counts obj s] by simp
qed


text \<open>
  C2. Each paginated collector, served a sequence of pages, returns the nodes of all
  pages in page order and sends exactly one request per page: the first without a cursor,
  every later one with the end cursor of the page before; it stops at the page that
  announces no next page.
\<close>

theorem collectors_return_all_pages:
  "(served api Accounts_query accounts_body (sent w) JNull ps
      \<longrightarrow> fetch_accounts api w = collected Accounts_query ps w)
   \<and> (served api (Tours_query u) tours_body (sent w) JNull ps
      \<longrightarrow> fetch_tours api u w = collected (Tours_query u) ps w)
   \<and> (served api (Shows_query u sd ed) shows_body (sent w) JNull ps
      \<longrightarrow> fetch_shows api u sd ed w = collected (Shows_query u sd ed) ps w)
   \<and> (served api (Merchandise_query u) (merchandise_body u) (sent w) JNull ps
      \<longrightarrow> fetch_merchandise api u w
           = collected (Merchandise_query u) ps (w\<lparr>merch_calls := merch_calls w @ [u]\<rparr>))
   \<and> (served api (Counts_query u) counts_body (sent w) JNull cps
      \<longrightarrow> fetch_counts api u w = collected (Counts_query u) cps w)"
  by (simp add: fetch_accounts_served fetch_tours_served fetch_shows_served
      fetch_merchandise_served fetch_counts_served)

lemma three_pages_served:
  "served three_page_api Accounts_query accounts_body [] JNull three_pages"
  "served three_page_api (Tours_query u) tours_body [] JNull three_pages"
  "served three_page_api (Shows_query u sd ed) shows_body [] JNull three_pages"
  "served three_page_api (Merchandise_query u) (merchandise_body u) [] JNull three_pages"
  "served three_page_api (Counts_query u) counts_body [] JNull three_pages"
  by (simp_all add: three_pages_def three_page_api_def page_at_def ok_body_def)

theorem collectors_return_all_pages_witness:
  "served three_page_api Accounts_query accounts_body (sent fresh) JNull three_pages
   \<and> served three_page_api (Tours_query (JStr ''a'')) tours_body (sent fresh) JNull three_pages
   \<and> served three_page_api (Shows_query (JStr ''t'') ''d1'' ''d2'') shows_body (sent fresh) JNull
       three_pages
   \<and> served three_page_api (Merchandise_query (JStr ''a'')) (merchandise_body (JStr ''a''))
       (sent fresh) JNull three_pages
   \<and> served three_page_api (Counts_query (JStr ''s'')) counts_body (sent fresh) JNull three_pages
   \<and> fetch_accounts three_page_api fresh
       = Some (Inr [JStr ''n1'', JStr ''n2'', JStr ''n3'', JStr ''n4''],
               \<lparr>sent = [Accounts_query JNull, Accounts_query (JStr ''c1''),
                        Accounts_query (JStr ''c2'')],
                merch_calls = []\<rparr>)
   \<and> fetch_counts three_page_api (JStr ''s'') fresh
       = Some (Inr [JStr ''n1'', JStr ''n2'', JStr ''n3'', JStr ''n4''],
               \<lparr>sent = [Counts_query (JStr ''s'') JNull, Counts_query (JStr ''s'') (JStr ''c1''),
                        Counts_query (JStr ''s'') (JStr ''c2'')],
                merch_calls = []\<rparr>)"
proof -
  have s: "sent fresh = []" by (simp add: fresh_def)
  have c: "\<And>mk. collected mk three_pages fresh
             = Some (Inr [JStr ''n1'', JStr ''n2'', JStr ''n3'', JStr ''n4''],
                     \<lparr>sent = [mk JNull, mk (JStr ''c1''), mk (JStr ''c2'')], merch_calls = []\<rparr>)"
    by (simp add: collected_def three_pages_def fresh_def)
  show ?thesis
    using collectors_return_all_pages [of three_page_api fresh three_pages "JStr ''s''"
        "''d1''" "''d2''" three_pages]
      three_pages_served
    by (simp add: s c)
qed

text \<open>
  C4. When every reply for a show lists two or more settlements, \<open>fetch_counts\<close> returns
  exactly the counts of the first settlement of each reply, page after page; nothing of
  a later settlement is in its result.
\<close>

theorem fetch_counts_first_settlement_only:
  assumes "served api (Counts_query u) counts_body (sent w) JNull ps"
    and "list_all (\<lambda>p. later_settlements p \<noteq> []) ps"
  shows "map_option fst (fetch_counts api u w) = Some (Inr (concat (map nodes ps)))"
  using fetch_counts_served [OF assms(1)] by (simp add: collected_def)

theorem fetch_counts_first_settlement_only_witness:
  "served two_settlements_api (Counts_query (JStr ''show-1'')) counts_body (sent fresh) JNull
     [two_settlements_page]
   \<and> list_all (\<lambda>p. later_settlements p \<noteq> []) [two_settlements_page]
   \<and> map_option fst (fetch_counts two_settlements_api (JStr ''show-1'') fresh)
       = Some (Inr [JObj [(''merchVariantUuid'', JStr ''var-1''), (''countIn'', JInt 10)]])"
proof -
  have a: "served two_settlements_api (Counts_query (JStr ''show-1'')) counts_body (sent fresh)
             JNull [two_settlements_page]"
    by (simp add: two_settlements_api_def ok_body_def two_settlements_page_def)
  have b: "list_all (\<lambda>p. later_settlements p \<noteq> []) [two_settlements_page]"
    by (simp add: two_settlements_page_def)
  show ?thesis
    using a b fetch_counts_first_settlement_only [OF a b]
    by (simp add: two_settlements_page_def)
qed

text \<open>
  An account without tours, a tour without shows in range, an account without
  merchandise, and a show whose first settlement has no counts: the collector returns
  the empty list after one request.
\<close>

lemma collectors_no_children:
  assumes "nodes p = []" and "\<not> has_next p"
  shows "ok_body (api (sent w @ [Tours_query u JNull])) = Some (tours_body p) \<Longrightarrow>
         fetch_tours api u w = Some (Inr [], w\<lparr>sent := sent w @ [Tours_query u JNull]\<rparr>)"
    and "ok_body (api (sent w @ [Shows_query u sd ed JNull])) = Some (shows_body p) \<Longrightarrow>
         fetch_shows api u sd ed w
           = Some (Inr [], w\<lparr>sent := sent w @ [Shows_query u sd ed JNull]\<rparr>)"
    and "ok_body (api (sent w @ [Merchandise_query u JNull])) = Some (merchandise_body u p) \<Longrightarrow>
         fetch_merchandise api u w
           = Some (Inr [], w\<lparr>sent := sent w @ [Merchandise_query u JNull],
                             merch_calls := merch_calls w @ [u]\<rparr>)"
    and "ok_body (api (sent w @ [Counts_query u JNull])) = Some (counts_body cp) \<Longrightarrow>
         nodes cp = [] \<Longrightarrow> \<not> has_next cp \<Longrightarrow>
         fetch_counts api u w = Some (Inr [], w\<lparr>sent := sent w @ [Counts_query u JNull]\<rparr>)"
proof -
  show "ok_body (api (sent w @ [Tours_query u JNull])) = Some (tours_body p) \<Longrightarrow>
         fetch_tours api u w = Some (Inr [], w\<lparr>sent := sent w @ [Tours_query u JNull]\<rparr>)"
    using fetch_tours_served [of api u w "[p]"] assms by (simp add: collected_def)
  show "ok_body (api (sent w @ [Shows_query u sd ed JNull])) = Some (shows_body p) \<Longrightarrow>
         fetch_shows api u sd ed w
           = Some (Inr [], w\<lparr>sent := sent w @ [Shows_query u sd ed JNull]\<rparr>)"
    using fetch_shows_served [of api u sd ed w "[p]"] assms by (simp add: collected_def)
  show "ok_body (api (sent w @ [Merchandise_query u JNull])) = Some (merchandise_body u p) \<Longrightarrow>
         fetch_merchandise api u w
           = Some (Inr [], w\<lparr>sent := sent w @ [Merchandise_query u JNull],
                             merch_calls := merch_calls w @ [u]\<rparr>)"
    using fetch_merchandise_served [of api u w "[p]"] assms by (simp add: collected_def)
  show "ok_body (api (sent w @ [Counts_query u JNull])) = Some (counts_body cp) \<Longrightarrow>
         nodes cp = [] \<Longrightarrow> \<not> has_next cp \<Longrightarrow>
         fetch_counts api u w = Some (Inr [], w\<lparr>sent := sent w @ [Counts_query u JNull]\<rparr>)"
    using fetch_counts_served [of api u w "[cp]"] by (simp add: collected_def)
qed

text \<open>
  C7, at a show without settlements: \<open>fetch_counts\<close> raises \<open>IndexError\<close> on the first
  reply, where the specification expects an empty sequence.
\<close>

theorem fetch_counts_no_settlement:
  "fetch_counts no_settlement_api (JStr ''show-1'') fresh
     = Some (Inl IndexError,
             \<lparr>sent = [Counts_query (JStr ''show-1'') JNull], merch_calls = []\<rparr>)"
  unfolding fetch_counts_def
  by (subst paginate.simps)
     (simp add: execute_query_def no_settlement_api_def fresh_def page_step_def
        counts_connection_def bind_err_def)



section \<open>Properties of the API client\<close>

text \<open>
  C6, as the claim states it, fails at a reply with status 200 whose error list is
  present and empty: the list is not non-empty, and \<open>execute_query\<close> raises the
  GraphQL failure all the same.
\<close>

theorem execute_query_empty_error_list:
  "subscript empty_errors_body ''errors'' = Inr (JList [])
   \<and> fst (execute_query empty_errors_api (Accounts_query JNull) fresh)
       = Inl (GraphQL_query_failed (JList []))"
  by (simp add: execute_query_def empty_errors_api_def empty_errors_body_def fresh_def
      bind_err_def)

text \<open>
  C6, amended. \<open>execute_query\<close> raises the status failure whenever the status of the
  reply is not 200, whatever the body, which it does not parse. With status 200 and a
  body that is a JSON object it raises the GraphQL failure exactly when the object has
  an \<open>errors\<close> key, whatever its value, and otherwise returns the parsed object
  unchanged; with status 200 and a body that is not JSON the parser's exception comes
  out. In every case it has sent exactly this request.
\<close>

theorem execute_query_outcome:
  assumes "api (sent w @ [req]) = Response status_code text body"
  shows "(status_code \<noteq> 200 \<longrightarrow>
            execute_query api req w
              = (Inl (Query_failed_with_status_code status_code text),
                 w\<lparr>sent := sent w @ [req]\<rparr>))
         \<and> (status_code = 200 \<longrightarrow>
              (\<forall>kvs. body = Some (JObj kvs) \<longrightarrow>
                 execute_query api req w
                   = (case map_of kvs ''errors'' of
                        Some errors \<Rightarrow> Inl (GraphQL_query_failed errors)
                      | None \<Rightarrow> Inr (JObj kvs),
                      w\<lparr>sent := sent w @ [req]\<rparr>))
              \<and> (body = None \<longrightarrow>
                   execute_query api req w
                     = (Inl JSONDecodeError, w\<lparr>sent := sent w @ [req]\<rparr>)))"
  using assms
  by (simp add: execute_query_def bind_err_def Let_def split: option.splits)

theorem execute_query_outcome_witness:
  "server_error_api (sent fresh @ [Accounts_query JNull])
     = Response 500 ''Internal Server Error'' None
   \<and> (500 :: int) \<noteq> 200
   \<and> execute_query server_error_api (Accounts_query JNull) fresh
       = (Inl (Query_failed_with_status_code 500 ''Internal Server Error''),
          \<lparr>sent = [Accounts_query JNull], merch_calls = []\<rparr>)
   \<and> no_settlement_api (sent fresh @ [Counts_query (JStr ''show-1'') JNull])
       = Response 200 []
           (Some (JObj [(''data'', JObj [(''show'', JObj [(''settlements'', JList [])])])]))
   \<and> execute_query no_settlement_api (Counts_query (JStr ''show-1'') JNull) fresh
       = (Inr (JObj [(''data'', JObj [(''show'', JObj [(''settlements'', JList [])])])]),
          \<lparr>sent = [Counts_query (JStr ''show-1'') JNull], merch_calls = []\<rparr>)
   \<and> empty_errors_api (sent fresh @ [Accounts_query JNull])
       = Response 200 [] (Some (JObj [(''errors'', JList []), (''data'', JObj [])]))
   \<and> execute_query empty_errors_api (Accounts_query JNull) fresh
       = (Inl (GraphQL_query_failed (JList [])),
          \<lparr>sent = [Accounts_query JNull], merch_calls = []\<rparr>)
   \<and> not_json_api (sent fresh @ [Accounts_query JNull]) = Response 200 ''<html></html>'' None
   \<and> execute_query not_json_api (Accounts_query JNull) fresh
       = (Inl JSONDecodeError, \<lparr>sent = [Accounts_query JNull], merch_calls = []\<rparr>)"
proof -
  have a: "server_error_api (sent fresh @ [Accounts_query JNull])
     = Response 500 ''Internal Server Error'' None"
    by (simp add: server_error_api_def)
  have b: "no_settlement_api (sent fresh @ [Counts_query (JStr ''show-1'') JNull])
     = Response 200 []
         (Some (JObj [(''data'', JObj [(''show'', JObj [(''settlements'', JList [])])])]))"
    by (simp add: no_settlement_api_def)
  have c: "empty_errors_api (sent fresh @ [Accounts_query JNull])
     = Response 200 [] (Some (JObj [(''errors'', JList []), (''data'', JObj [])]))"
    by (simp add: empty_errors_api_def empty_errors_body_def)
  have d: "not_json_api (sent fresh @ [Accounts_query JNull])
     = Response 200 ''<html></html>'' None"
    by (simp add: not_json_api_def)
  show ?thesis
    using a b c d
      execute_query_outcome [where api = server_error_api and w = fresh
        and req = "Accounts_query JNull", OF a]
      execute_query_outcome [where api = no_settlement_api and w = fresh
        and req = "Counts_query (JStr ''show-1'') JNull", OF b]
      execute_query_outcome [where api = empty_errors_api and w = fresh
        and req = "Accounts_query JNull", OF c]
      execute_query_outcome [where api = not_json_api and w = fresh
        and req = "Accounts_query JNull", OF d]
    by (simp add: fresh_def)
qed

text \<open>When the call does not complete, the exception of the HTTP library comes out.\<close>

lemma execute_query_no_response:
  "api (sent w @ [req]) = No_response \<Longrightarrow>
   execute_query api req w = (Inl RequestException, w\<lparr>sent := sent w @ [req]\<rparr>)"
  by (simp add: execute_query_def Let_def)



section \<open>Properties of the join\<close>

lemmas demo_defs =
  demo_show_attached_def demo_account_def demo_tour_def demo_item_def demo_variant_a_def
  demo_variant_b_def demo_count_a_def demo_count_b_def demo_count_unknown_def
  demo_count_free_def

lemmas join_defs =
  process_count_def find_variant_def variant_matches_def make_record_def resolve_price_def
  variant_field_def calculate_sold_def py_or_def text_of_def bind_err_def

lemma bind_err_Inr:
  "bind_err m f = Inr y \<Longrightarrow> \<exists>x. m = Inr x \<and> f x = Inr y"
  by (cases m) (simp_all add: bind_err_def)

lemma subscript_truthy: "subscript x k = Inr y \<Longrightarrow> truthy x"
  by (cases x) (auto split: option.splits)

lemma variant_matches_truthy: "variant_matches v count = Inr m \<Longrightarrow> truthy v"
  unfolding variant_matches_def
  by (auto dest!: bind_err_Inr intro: subscript_truthy)

lemma any_match_first_match:
  "any_variant_matches vs count = Inr True \<Longrightarrow>
   \<exists>v. first_matching_variant vs count = Inr v \<and> truthy v"
proof (induction vs)
  case Nil
  then show ?case by simp
next
  case (Cons v vs)
  from Cons.prems obtain m where m: "variant_matches v count = Inr m"
    and rest: "(if m then Inr True else any_variant_matches vs count) = Inr True"
    by (auto dest!: bind_err_Inr)
  show ?case
  proof (cases m)
    case True
    with m variant_matches_truthy [OF m] show ?thesis
      by (simp add: bind_err_def)
  next
    case False
    with rest Cons.IH m show ?thesis
      by (simp add: bind_err_def)
  qed
qed

lemma find_merch_item_found:
  "find_merch_item merchandise count = Inr item \<Longrightarrow> truthy item \<Longrightarrow>
   \<exists>variant. find_variant item count = Inr variant \<and> truthy variant"
proof (induction merchandise)
  case Nil
  then show ?case by simp
next
  case (Cons i merchandise)
  from Cons.prems(1) obtain mv vs m where mv: "subscript i ''merchVariants'' = Inr mv"
    and vs: "py_iter mv = Inr vs" and m: "any_variant_matches vs count = Inr m"
    and rest: "(if m then Inr i else find_merch_item merchandise count) = Inr item"
    by (auto dest!: bind_err_Inr)
  show ?case
  proof (cases m)
    case True
    with rest have "item = i" by simp
    with True m mv vs any_match_first_match [of vs count] show ?thesis
      by (simp add: find_variant_def bind_err_def)
  next
    case False
    with rest Cons.IH Cons.prems(2) show ?thesis by simp
  qed
qed

lemma variant_field_truthy: "truthy variant \<Longrightarrow> variant_field variant k = subscript variant k"
  by (simp add: variant_field_def)

lemma process_count_SomeD:
  assumes "process_count str_of show merchandise count = Inr (Some r)"
  shows "\<exists>item variant sold. find_merch_item merchandise count = Inr item \<and> truthy item
           \<and> find_variant item count = Inr variant
           \<and> calculate_sold count = Inr sold
           \<and> make_record str_of show item variant count sold = Inr r"
proof -
  from assms obtain item where item: "find_merch_item merchandise count = Inr item"
    and body: "(if truthy item then
       bind_err (find_variant item count) (\<lambda>variant.
       bind_err (calculate_sold count) (\<lambda>sold.
       bind_err (make_record str_of show item variant count sold) (\<lambda>r.
       Inr (Some r))))
     else Inr None) = Inr (Some r)"
    unfolding process_count_def by (auto dest!: bind_err_Inr)
  from body have t: "truthy item"
    by (auto split: if_splits)
  with body obtain variant sold where "find_variant item count = Inr variant"
    "calculate_sold count = Inr sold" "make_record str_of show item variant count sold = Inr r"
    by (auto dest!: bind_err_Inr)
  with item t show ?thesis by blast
qed

lemma make_record_fields:
  assumes "make_record str_of show item variant count sold = Inr r"
  shows "variant_field variant ''size'' = Inr (Size r)"
    and "variant_field variant ''sku'' = Inr (SKU r)"
    and "resolve_price count variant = Inr (Price r)"
    and "Sold r = sold"
  using assms unfolding make_record_def
  by (auto dest!: bind_err_Inr)

text \<open>
  C10. For every record \<open>fetch_all_data\<close> emits, the search for the variant inside the
  chosen merchandise item has found a variant, so the size, the SKU and the catalogue
  price of the record are read from that variant and never replaced by \<open>N/A\<close>.
\<close>

theorem emitted_record_has_variant:
  assumes "process_count str_of show merchandise count = Inr (Some r)"
  shows "\<exists>item variant. find_merch_item merchandise count = Inr item
           \<and> find_variant item count = Inr variant \<and> truthy variant
           \<and> subscript variant ''size'' = Inr (Size r)
           \<and> subscript variant ''sku'' = Inr (SKU r)
           \<and> variant_field variant ''price'' = subscript variant ''price''"
proof -
  from process_count_SomeD [OF assms] obtain item variant sold
    where item: "find_merch_item merchandise count = Inr item" "truthy item"
      and variant: "find_variant item count = Inr variant"
      and r: "make_record str_of show item variant count sold = Inr r"
    by blast
  from find_merch_item_found [OF item] variant have t: "truthy variant"
    by auto
  from make_record_fields(1,2) [OF r] t
  have "subscript variant ''size'' = Inr (Size r)" "subscript variant ''sku'' = Inr (SKU r)"
    by (simp_all add: variant_field_truthy)
  with item variant t show ?thesis
    by (auto simp: variant_field_truthy)
qed

text \<open>
  C5, as the claim states it, fails at a price override of zero: it is present and not
  null, and the price of the record is the catalogue price.
\<close>

theorem price_override_zero:
  "subscript demo_count_free ''priceOverride'' = Inr (JInt 0)
   \<and> process_count text_of (demo_show_attached ''show-1'') [demo_item] demo_count_free
       = Inr (Some demo_record_a)
   \<and> Price demo_record_a = JInt 25"
  by (simp add: demo_defs join_defs demo_record_a_def)

text \<open>
  C5, amended. For every emitted record, the price is the count's price override when
  that override is true in Python's sense (not null, not zero, not empty); otherwise it
  is the catalogue price of the matched variant; otherwise, with no variant, it is
  \<open>N/A\<close>.
\<close>

theorem price_resolution:
  assumes "process_count str_of show merchandise count = Inr (Some r)"
  shows "\<exists>item variant price_override.
           find_merch_item merchandise count = Inr item
           \<and> find_variant item count = Inr variant
           \<and> subscript count ''priceOverride'' = Inr price_override
           \<and> (if truthy price_override then Price r = price_override
              else if truthy variant then subscript variant ''price'' = Inr (Price r)
              else Price r = JStr ''N/A'')"
proof -
  from process_count_SomeD [OF assms] obtain item variant sold
    where item: "find_merch_item merchandise count = Inr item"
      and variant: "find_variant item count = Inr variant"
      and r: "make_record str_of show item variant count sold = Inr r"
    by blast
  from make_record_fields(3) [OF r] obtain po
    where po: "subscript count ''priceOverride'' = Inr po"
      and p: "(if truthy po then Inr po else variant_field variant ''price'') = Inr (Price r)"
    unfolding resolve_price_def by (auto dest!: bind_err_Inr)
  from p have "if truthy po then Price r = po
               else if truthy variant then subscript variant ''price'' = Inr (Price r)
               else Price r = JStr ''N/A''"
    by (auto simp: variant_field_def split: if_splits)
  with item variant po show ?thesis by blast
qed


lemma demo_process_count_a:
  "process_count text_of (demo_show_attached uuid) [demo_item] demo_count_a
     = Inr (Some demo_record_a)"
  by (simp add: demo_defs join_defs demo_record_a_def)

lemma demo_process_count_b:
  "process_count text_of (demo_show_attached uuid) [demo_item] demo_count_b
     = Inr (Some demo_record_b)"
  by (simp add: demo_defs join_defs demo_record_b_def)

theorem emitted_record_has_variant_witness:
  "process_count text_of (demo_show_attached ''show-1'') [demo_item] demo_count_a
     = Inr (Some demo_record_a)
   \<and> find_merch_item [demo_item] demo_count_a = Inr demo_item
   \<and> find_variant demo_item demo_count_a = Inr demo_variant_a
   \<and> truthy demo_variant_a
   \<and> Size demo_record_a = JStr ''M'' \<and> SKU demo_record_a = JStr ''A1''"
proof -
  have a: "process_count text_of (demo_show_attached ''show-1'') [demo_item] demo_count_a
     = Inr (Some demo_record_a)"
    by (rule demo_process_count_a)
  have b: "find_merch_item [demo_item] demo_count_a = Inr demo_item"
    by (simp add: demo_defs join_defs)
  have c: "find_variant demo_item demo_count_a = Inr demo_variant_a"
    by (simp add: demo_defs join_defs)
  from emitted_record_has_variant [OF a] b c
  have "truthy demo_variant_a
        \<and> subscript demo_variant_a ''size'' = Inr (Size demo_record_a)
        \<and> subscript demo_variant_a ''sku'' = Inr (SKU demo_record_a)"
    by auto
  with a b c show ?thesis
    by (simp add: demo_variant_a_def)
qed

theorem price_resolution_witness:
  "process_count text_of (demo_show_attached ''show-1'') [demo_item] demo_count_b
     = Inr (Some demo_record_b)
   \<and> subscript demo_count_b ''priceOverride'' = Inr (JInt 20)
   \<and> truthy (JInt 20) \<and> Price demo_record_b = JInt 20"
proof -
  have a: "process_count text_of (demo_show_attached ''show-1'') [demo_item] demo_count_b
     = Inr (Some demo_record_b)"
    by (rule demo_process_count_b)
  have b: "subscript demo_count_b ''priceOverride'' = Inr (JInt 20)"
    by (simp add: demo_count_b_def)
  from price_resolution [OF a] b have "Price demo_record_b = JInt 20"
    by auto
  with a b show ?thesis by simp
qed

lemma no_match_any:
  assumes "subscript count ''merchVariantUuid'' = Inr u"
  shows "list_all (\<lambda>v. field_of v ''uuid'' \<noteq> None) vs \<Longrightarrow>
         list_all (\<lambda>v. case field_of v ''uuid'' of None \<Rightarrow> True | Some vu \<Rightarrow> \<not> py_eq vu u) vs \<Longrightarrow>
         any_variant_matches vs count = Inr False"
proof (induction vs)
  case Nil
  then show ?case by simp
next
  case (Cons v vs)
  from Cons.prems(1) obtain vu where vu: "field_of v ''uuid'' = Some vu"
    by auto
  then obtain kvs where v: "v = JObj kvs" "map_of kvs ''uuid'' = Some vu"
    by (cases v) (simp_all add: field_of_def)
  from Cons.prems(2) vu have "\<not> py_eq vu u" by simp
  with v assms have "variant_matches v count = Inr False"
    by (simp add: variant_matches_def bind_err_def)
  with Cons show ?case by (simp add: bind_err_def)
qed

lemma find_merch_item_none:
  assumes "subscript count ''merchVariantUuid'' = Inr u"
  shows "list_all wf_item merchandise \<Longrightarrow> no_variant_has merchandise u \<Longrightarrow>
         find_merch_item merchandise count = Inr JNull"
proof (induction merchandise)
  case Nil
  then show ?case by simp
next
  case (Cons item merchandise)
  from Cons.prems(1) have wf: "wf_item item" and wfs: "list_all wf_item merchandise"
    by simp_all
  from wf obtain vs where mv: "field_of item ''merchVariants'' = Some (JList vs)"
    and uu: "list_all (\<lambda>v. field_of v ''uuid'' \<noteq> None) vs"
    by (auto simp: wf_item_def split: option.splits json.splits)
  from mv obtain kvs where item: "item = JObj kvs" "map_of kvs ''merchVariants'' = Some (JList vs)"
    by (cases item) (simp_all add: field_of_def)
  from Cons.prems(2) mv
  have nm: "list_all (\<lambda>v. case field_of v ''uuid'' of None \<Rightarrow> True | Some vu \<Rightarrow> \<not> py_eq vu u) vs"
    and rest: "no_variant_has merchandise u"
    by (simp_all add: no_variant_has_def variants_of_def)
  have "any_variant_matches vs count = Inr False"
    by (rule no_match_any [OF assms uu nm])
  with item Cons.IH [OF wfs rest] show ?case
    by (simp add: bind_err_def)
qed

lemma process_counts_append:
  "process_counts str_of show merchandise (xs @ ys) all_data
     = bind_err (process_counts str_of show merchandise xs all_data)
         (\<lambda>all_data'. process_counts str_of show merchandise ys all_data')"
  by (induction xs arbitrary: all_data) (auto simp: bind_err_def split: sum.splits)

text \<open>
  C3. A count whose \<open>merchVariantUuid\<close> is the identifier of no variant of the
  account's merchandise adds no record and raises no error: the loop over the counts of
  the show gives what it gives without that count, so every other count is processed
  as before.
\<close>

theorem unmatched_count_dropped:
  assumes "list_all wf_item merchandise"
    and "field_of count ''merchVariantUuid'' = Some u"
    and "no_variant_has merchandise u"
  shows "process_count str_of show merchandise count = Inr None
         \<and> process_counts str_of show merchandise (before @ count # after) all_data
             = process_counts str_of show merchandise (before @ after) all_data"
proof -
  from assms(2) have "subscript count ''merchVariantUuid'' = Inr u"
    by (cases count) (simp_all add: field_of_def)
  then have "find_merch_item merchandise count = Inr JNull"
    using assms(1,3) by (rule find_merch_item_none)
  then have none: "process_count str_of show merchandise count = Inr None"
    by (simp add: process_count_def bind_err_def)
  then have "process_counts str_of show merchandise (count # after) a
               = process_counts str_of show merchandise after a" for a
    by (simp add: bind_err_def)
  with none show ?thesis
    by (simp add: process_counts_append)
qed

theorem unmatched_count_dropped_witness:
  "list_all wf_item [demo_item]
   \<and> field_of demo_count_unknown ''merchVariantUuid'' = Some (JStr ''var-9'')
   \<and> no_variant_has [demo_item] (JStr ''var-9'')
   \<and> process_count text_of (demo_show_attached ''show-1'') [demo_item] demo_count_unknown
       = Inr None
   \<and> process_counts text_of (demo_show_attached ''show-1'') [demo_item]
        ([demo_count_a] @ demo_count_unknown # [demo_count_b]) []
       = Inr [demo_record_a, demo_record_b]"
proof -
  have a: "list_all wf_item [demo_item]"
    by (simp add: wf_item_def field_of_def demo_defs)
  have b: "field_of demo_count_unknown ''merchVariantUuid'' = Some (JStr ''var-9'')"
    by (simp add: field_of_def demo_defs)
  have c: "no_variant_has [demo_item] (JStr ''var-9'')"
    by (simp add: no_variant_has_def variants_of_def field_of_def demo_defs)
  have d: "process_counts text_of (demo_show_attached ''show-1'') [demo_item]
             ([demo_count_a] @ [demo_count_b]) [] = Inr [demo_record_a, demo_record_b]"
    by (simp add: demo_process_count_a demo_process_count_b bind_err_def)
  note t = unmatched_count_dropped [OF a b c, of text_of "demo_show_attached ''show-1''"
      "[demo_count_a]" "[demo_count_b]" "[]"]
  have e: "process_count text_of (demo_show_attached ''show-1'') [demo_item] demo_count_unknown
             = Inr None"
    by (rule conjunct1 [OF t])
  have "process_counts text_of (demo_show_attached ''show-1'') [demo_item]
          ([demo_count_a] @ demo_count_unknown # [demo_count_b]) []
        = Inr [demo_record_a, demo_record_b]"
    by (rule trans [OF conjunct2 [OF t] d])
  with a b c e show ?thesis
    by blast
qed



section \<open>Properties of the export table\<close>








lemma export_table_empty: "export_table [] = Inl KeyError"
  by (simp add: export_table_def)

text \<open>
  A SKU column of an integer and a null is stored as floats: the cell of the integer is
  its float, not the integer.
\<close>

lemma frame_column_int_and_null:
  "frame_column [JInt 9007199254740993, JNull] = [Float64 9007199254740993, NaN]"
  by (simp add: frame_column_def int64_or_null_def)


section \<open>Properties of the merchandise cache\<close>



lemma execute_query_calls: "merch_calls (snd (execute_query api req w)) = merch_calls w"
  by (simp add: execute_query_def Let_def split: http_result.splits option.splits)

lemma paginate_calls':
  assumes p: "paginate api mk conn acc cursor w = Some y"
  shows "merch_calls (snd y) = merch_calls w"
proof (rule paginate.raw_induct
    [where P = "\<lambda>api mk conn acc cursor w y. merch_calls (snd y) = merch_calls w", OF _ p],
    goal_cases)
  case (1 f api mk conn acc cursor w y)
  obtain q w1 where q: "execute_query api (mk cursor) w = (q, w1)"
    by (cases "execute_query api (mk cursor) w")
  then have w1: "merch_calls w1 = merch_calls w"
    using execute_query_calls [of api "mk cursor" w] by simp
  show ?case
  proof (cases q)
    case (Inl e)
    with 1(2) q w1 show ?thesis by auto
  next
    case (Inr result)
    show ?thesis
    proof (cases "page_step conn result acc")
      case (Inl e)
      with 1(2) q w1 Inr show ?thesis by auto
    next
      case step: (Inr p)
      obtain acc' nxt where p: "p = (acc', nxt)" by (cases p)
      show ?thesis
      proof (cases nxt)
        case None
        with 1(2) q w1 Inr step p show ?thesis by auto
      next
        case (Some c)
        with 1(2) q Inr step p have "f api mk conn acc' c w1 = Some y"
          by auto
        from 1(1) [OF this] w1 show ?thesis by simp
      qed
    qed
  qed
qed

lemma paginate_calls:
  "paginate api mk conn acc cursor w = Some (r, w') \<Longrightarrow> merch_calls w' = merch_calls w"
  by (drule paginate_calls') simp


lemma then_do_SomeD:
  "then_do m f w = Some (res, w') \<Longrightarrow>
   (\<exists>e. m w = Some (Inl e, w') \<and> res = Inl e)
   \<or> (\<exists>x w1. m w = Some (Inr x, w1) \<and> f x w1 = Some (res, w'))"
  by (auto simp: then_do_def split: option.splits sum.splits prod.splits)

lemma keeps_callsD: "keeps_calls m \<Longrightarrow> m w = Some (r, w') \<Longrightarrow> merch_calls w' = merch_calls w"
  unfolding keeps_calls_def by blast

lemma keeps_calls_pure: "keeps_calls (pure_step r)"
  by (simp add: keeps_calls_def pure_step_def)

lemma keeps_calls_then_do:
  assumes "keeps_calls m" and "\<And>x. keeps_calls (f x)"
  shows "keeps_calls (then_do m f)"
  unfolding keeps_calls_def
proof (intro allI impI)
  fix w r w'
  assume "then_do m f w = Some (r, w')"
  from then_do_SomeD [OF this] show "merch_calls w' = merch_calls w"
  proof
    assume "\<exists>e. m w = Some (Inl e, w') \<and> r = Inl e"
    with assms(1) show ?thesis by (auto dest: keeps_callsD)
  next
    assume "\<exists>x w1. m w = Some (Inr x, w1) \<and> f x w1 = Some (r, w')"
    then obtain x w1 where "m w = Some (Inr x, w1)" "f x w1 = Some (r, w')" by blast
    with keeps_callsD [OF assms(1)] keeps_callsD [OF assms(2)] show ?thesis
      by fastforce
  qed
qed

lemma keeps_calls_paginate: "keeps_calls (paginate api mk conn acc cursor)"
  unfolding keeps_calls_def by (blast dest: paginate_calls)

lemma keeps_calls_fetch:
  "keeps_calls (fetch_accounts api)"
  "keeps_calls (fetch_tours api u)"
  "keeps_calls (fetch_shows api u sd ed)"
  "keeps_calls (fetch_counts api u)"
  by (simp_all add: fetch_accounts_def fetch_tours_def fetch_shows_def fetch_counts_def
      keeps_calls_paginate)

lemma fetch_merchandise_calls:
  "fetch_merchandise api u w = Some (r, w') \<Longrightarrow> merch_calls w' = merch_calls w @ [u]"
  unfolding fetch_merchandise_def by (drule paginate_calls) simp

lemma keeps_calls_tours_loop: "keeps_calls (tours_loop api sd ed account tours all_shows)"
  by (induction tours arbitrary: all_shows)
     (simp_all add: keeps_calls_pure keeps_calls_then_do keeps_calls_fetch)

lemma keeps_calls_accounts_loop: "keeps_calls (accounts_loop api sd ed accounts all_shows)"
  by (induction accounts arbitrary: all_shows)
     (simp_all add: keeps_calls_pure keeps_calls_then_do keeps_calls_fetch
        keeps_calls_tours_loop)

lemma keeps_calls_fetch_shows_in_date_range:
  "keeps_calls (fetch_shows_in_date_range api sd ed)"
  by (simp add: fetch_shows_in_date_range_def keeps_calls_then_do keeps_calls_fetch
      keeps_calls_accounts_loop)

lemma py_eq_hashable_refl: "hashable u \<Longrightarrow> py_eq u u"
  by (cases u) simp_all

lemma py_eq_hashable_join:
  "hashable k \<Longrightarrow> hashable u0 \<Longrightarrow> py_eq k u \<Longrightarrow> py_eq u0 u \<Longrightarrow> py_eq k u0"
  by (cases k; cases u0; cases u; simp split: if_splits)

lemma cache_lookup_None: "cache_lookup cache u = None \<longleftrightarrow> (\<forall>k \<in> fst ` set cache. \<not> py_eq k u)"
  by (induction cache u rule: cache_lookup.induct) simp_all

lemma cache_lookup_Some: "cache_lookup cache u = Some m \<Longrightarrow> \<exists>k \<in> fst ` set cache. py_eq k u"
proof (induction cache)
  case Nil
  then show ?case by simp
next
  case (Cons kv cache)
  obtain k v where kv: "kv = (k, v)" by (cases kv)
  show ?case
  proof (cases "py_eq k u")
    case True
    with kv show ?thesis by auto
  next
    case False
    with Cons kv show ?thesis by auto
  qed
qed

lemma new_call_once:
  assumes h: "list_all hashable calls" and hu: "hashable u0"
    and once: "\<forall>u. length (filter (\<lambda>v. py_eq v u) calls) \<le> 1"
    and new: "\<forall>k \<in> set calls. \<not> py_eq k u0"
  shows "length (filter (\<lambda>v. py_eq v u) (calls @ [u0])) \<le> 1"
proof (cases "py_eq u0 u")
  case False
  with once show ?thesis by simp
next
  case True
  have "filter (\<lambda>v. py_eq v u) calls = []"
  proof (rule ccontr)
    assume "filter (\<lambda>v. py_eq v u) calls \<noteq> []"
    then obtain k where k: "k \<in> set calls" "py_eq k u"
      by (auto simp: filter_empty_conv)
    with h have "hashable k" by (simp add: list_all_iff)
    from py_eq_hashable_join [OF this hu k(2) True] new k(1) show False
      by blast
  qed
  with True show ?thesis by simp
qed

lemma call_found: "k \<in> set calls \<Longrightarrow> py_eq k u \<Longrightarrow> 1 \<le> length (filter (\<lambda>v. py_eq v u) calls)"
proof -
  assume "k \<in> set calls" "py_eq k u"
  then have "k \<in> set (filter (\<lambda>v. py_eq v u) calls)" by simp
  then have "0 < length (filter (\<lambda>v. py_eq v u) calls)"
    by (simp only: length_pos_if_in_set)
  then show ?thesis by linarith
qed


lemma then_do_pure:
  "then_do (pure_step x) f w = (case x of Inl e \<Rightarrow> Some (Inl e, w) | Inr v \<Rightarrow> f v w)"
  by (simp add: then_do_def pure_step_def split: sum.splits)

lemma cached_merchandise_calls:
  assumes run: "cached_merchandise api cache u w = Some (r, w1)"
    and keys: "fst ` set cache = set (merch_calls w)"
    and h: "list_all hashable (merch_calls w)"
    and once: "\<forall>u. length (filter (\<lambda>v. py_eq v u) (merch_calls w)) \<le> 1"
  shows "list_all hashable (merch_calls w1)
         \<and> (\<forall>u. length (filter (\<lambda>v. py_eq v u) (merch_calls w1)) \<le> 1)
         \<and> set (merch_calls w) \<subseteq> set (merch_calls w1)
         \<and> (\<forall>cache' m. r = Inr (cache', m) \<longrightarrow>
               fst ` set cache' = set (merch_calls w1) \<and> (\<exists>k \<in> set (merch_calls w1). py_eq k u))"
proof (cases "hashable u")
  case False
  with run have "w1 = w" "r = Inl TypeError"
    by (simp_all add: cached_merchandise_def pure_step_def)
  with h once show ?thesis by simp
next
  case hu: True
  show ?thesis
  proof (cases "cache_lookup cache u")
    case (Some m)
    with run hu have "w1 = w" "r = Inr (cache, m)"
      by (simp_all add: cached_merchandise_def pure_step_def)
    with h once keys cache_lookup_Some [OF Some] show ?thesis by auto
  next
    case None
    with run hu have run': "then_do (fetch_merchandise api u) (\<lambda>merchandise.
        pure_step (Inr ((u, merchandise) # cache, merchandise))) w = Some (r, w1)"
      by (simp add: cached_merchandise_def)
    from then_do_SomeD [OF run']
    have calls: "merch_calls w1 = merch_calls w @ [u]"
      and res: "\<forall>cache' m. r = Inr (cache', m) \<longrightarrow> cache' = (u, m) # cache"
      by (auto simp: pure_step_def dest: fetch_merchandise_calls)
    from None keys have new: "\<forall>k \<in> set (merch_calls w). \<not> py_eq k u"
      by (simp add: cache_lookup_None)
    have o: "\<forall>u'. length (filter (\<lambda>v. py_eq v u') (merch_calls w1)) \<le> 1"
      unfolding calls using new_call_once [OF h hu once new] by blast
    have ks: "fst ` set ((u, m) # cache) = set (merch_calls w1)" for m
      using keys calls by simp
    have "py_eq u u"
      by (rule py_eq_hashable_refl [OF hu])
    then have f: "\<exists>k \<in> set (merch_calls w1). py_eq k u"
      using calls by auto
    have "list_all hashable (merch_calls w1)" "set (merch_calls w) \<subseteq> set (merch_calls w1)"
      using calls h hu by auto
    with o ks f res show ?thesis
      by blast
  qed
qed

lemma shows_loop_calls:
  assumes "shows_loop api str_of ss cache all_data w = Some (res, w')"
    and "fst ` set cache = set (merch_calls w)"
    and "list_all hashable (merch_calls w)"
    and "\<forall>u. length (filter (\<lambda>v. py_eq v u) (merch_calls w)) \<le> 1"
  shows "list_all hashable (merch_calls w')
         \<and> (\<forall>u. length (filter (\<lambda>v. py_eq v u) (merch_calls w')) \<le> 1)
         \<and> set (merch_calls w) \<subseteq> set (merch_calls w')
         \<and> (\<forall>data. res = Inr data \<longrightarrow>
               (\<forall>show \<in> set ss. \<exists>u. path show [''account'', ''uuid''] = Inr u
                  \<and> (\<exists>k \<in> set (merch_calls w'). py_eq k u)))"
  using assms
proof (induction ss arbitrary: cache all_data w)
  case Nil
  then show ?case by (simp add: pure_step_def)
next
  case (Cons s ss)
  note run = Cons.prems(1) and keys = Cons.prems(2) and h = Cons.prems(3)
    and once = Cons.prems(4)
  have stop: ?case if "res = Inl e" "merch_calls w' = merch_calls w" for e
    using that h once by simp
  show ?case
  proof (cases "subscript s ''uuid''")
    case (Inl e)
    with run have "res = Inl e" "w' = w" by (simp_all add: then_do_pure)
    then show ?thesis by (intro stop) simp_all
  next
    case uuid: (Inr show_uuid)
    show ?thesis
    proof (cases "subscript s ''showDate''")
      case (Inl e)
      with run uuid have "res = Inl e" "w' = w" by (simp_all add: then_do_pure)
      then show ?thesis by (intro stop) simp_all
    next
      case date: (Inr show_date)
      show ?thesis
      proof (cases "path s [''account'', ''uuid'']")
        case (Inl e)
        with run uuid date have "res = Inl e" "w' = w" by (simp_all add: then_do_pure)
        then show ?thesis by (intro stop) simp_all
      next
        case acc: (Inr u)
        from run uuid date acc
        have run2: "then_do (cached_merchandise api cache u) (\<lambda>(cache', merchandise).
            then_do (fetch_counts api show_uuid) (\<lambda>counts.
            then_do (pure_step (process_counts str_of s merchandise counts all_data))
              (\<lambda>all_data'. shows_loop api str_of ss cache' all_data'))) w = Some (res, w')"
          by (simp add: then_do_pure)
        from then_do_SomeD [OF run2] show ?thesis
        proof (elim disjE exE conjE)
          fix e
          assume cm: "cached_merchandise api cache u w = Some (Inl e, w')" and "res = Inl e"
          with cached_merchandise_calls [OF cm keys h once] show ?thesis by simp
        next
          fix x w1
          assume cm: "cached_merchandise api cache u w = Some (Inr x, w1)"
            and rest: "(case x of (cache', merchandise) \<Rightarrow>
              then_do (fetch_counts api show_uuid) (\<lambda>counts.
              then_do (pure_step (process_counts str_of s merchandise counts all_data))
                (\<lambda>all_data'. shows_loop api str_of ss cache' all_data'))) w1 = Some (res, w')"
          obtain cache' m where x: "x = (cache', m)" by (cases x)
          from cached_merchandise_calls [OF cm keys h once] x
          have h1: "list_all hashable (merch_calls w1)"
            and once1: "\<forall>u. length (filter (\<lambda>v. py_eq v u) (merch_calls w1)) \<le> 1"
            and sub1: "set (merch_calls w) \<subseteq> set (merch_calls w1)"
            and keys1: "fst ` set cache' = set (merch_calls w1)"
            and found: "\<exists>k \<in> set (merch_calls w1). py_eq k u"
            by simp_all
          from rest x
          have rest2: "then_do (fetch_counts api show_uuid) (\<lambda>counts.
              then_do (pure_step (process_counts str_of s m counts all_data))
                (\<lambda>all_data'. shows_loop api str_of ss cache' all_data')) w1 = Some (res, w')"
            by simp
          from then_do_SomeD [OF rest2] show ?thesis
          proof (elim disjE exE conjE)
            fix e
            assume fc: "fetch_counts api show_uuid w1 = Some (Inl e, w')" and r: "res = Inl e"
            from keeps_callsD [OF keeps_calls_fetch(4) fc] r h1 once1 sub1 show ?thesis
              by simp
          next
            fix counts w2
            assume fc: "fetch_counts api show_uuid w1 = Some (Inr counts, w2)"
              and rest3: "then_do (pure_step (process_counts str_of s m counts all_data))
                (\<lambda>all_data'. shows_loop api str_of ss cache' all_data') w2 = Some (res, w')"
            from keeps_callsD [OF keeps_calls_fetch(4) fc]
            have w2: "merch_calls w2 = merch_calls w1" .
            show ?thesis
            proof (cases "process_counts str_of s m counts all_data")
              case (Inl e)
              with rest3 have "res = Inl e" "w' = w2" by (simp_all add: then_do_pure)
              with w2 h1 once1 sub1 show ?thesis by simp
            next
              case (Inr all_data')
              with rest3
              have loop: "shows_loop api str_of ss cache' all_data' w2 = Some (res, w')"
                by (simp add: then_do_pure)
              from Cons.IH [OF loop] keys1 h1 once1 w2
              have ih: "list_all hashable (merch_calls w')"
                "\<forall>u. length (filter (\<lambda>v. py_eq v u) (merch_calls w')) \<le> 1"
                "set (merch_calls w1) \<subseteq> set (merch_calls w')"
                "\<forall>data. res = Inr data \<longrightarrow>
                   (\<forall>show \<in> set ss. \<exists>u. path show [''account'', ''uuid''] = Inr u
                      \<and> (\<exists>k \<in> set (merch_calls w'). py_eq k u))"
                by simp_all
              from found ih(3) have "\<exists>k \<in> set (merch_calls w'). py_eq k u"
                by blast
              with ih sub1 acc show ?thesis
                by auto
            qed
          qed
        qed
      qed
    qed
  qed
qed


text \<open>
  C8. In one run of \<open>fetch_all_data\<close>, \<open>fetch_merchandise\<close> is entered at most once for
  any account identifier; when the run succeeds it has been entered exactly once for the
  account of every show of the date range, however many shows share that account.
\<close>

theorem merchandise_fetched_once_per_account:
  assumes "merch_calls w = []"
    and "fetch_all_data api str_of start_date end_date w = Some (res, w')"
  shows "(\<forall>u. fetches_for u w' \<le> 1)
         \<and> (\<forall>data show_list w1.
               res = Inr data
               \<and> fetch_shows_in_date_range api start_date end_date w = Some (Inr show_list, w1)
               \<longrightarrow> (\<forall>show \<in> set show_list.
                      \<exists>u. path show [''account'', ''uuid''] = Inr u \<and> fetches_for u w' = 1))"
proof -
  from assms(2)
  have "then_do (fetch_shows_in_date_range api start_date end_date)
          (\<lambda>show_list. shows_loop api str_of show_list [] []) w = Some (res, w')"
    by (simp add: fetch_all_data_def)
  from then_do_SomeD [OF this] show ?thesis
  proof (elim disjE exE conjE)
    fix e
    assume f: "fetch_shows_in_date_range api start_date end_date w = Some (Inl e, w')"
      and r: "res = Inl e"
    from keeps_callsD [OF keeps_calls_fetch_shows_in_date_range f] assms(1)
    have "merch_calls w' = []" by simp
    with r show ?thesis by (simp add: fetches_for_def)
  next
    fix ss w1
    assume f: "fetch_shows_in_date_range api start_date end_date w = Some (Inr ss, w1)"
      and loop: "shows_loop api str_of ss [] [] w1 = Some (res, w')"
    from keeps_callsD [OF keeps_calls_fetch_shows_in_date_range f] assms(1)
    have w1: "merch_calls w1 = []" by simp
    from shows_loop_calls [OF loop] w1
    have once: "\<forall>u. length (filter (\<lambda>v. py_eq v u) (merch_calls w')) \<le> 1"
      and each: "\<forall>data. res = Inr data \<longrightarrow>
                   (\<forall>show \<in> set ss. \<exists>u. path show [''account'', ''uuid''] = Inr u
                      \<and> (\<exists>k \<in> set (merch_calls w'). py_eq k u))"
      by simp_all
    have one: "fetches_for u w' = 1" if "k \<in> set (merch_calls w')" "py_eq k u" for k u
      using call_found [OF that] once [rule_format, of u] by (simp add: fetches_for_def)
    from once have "\<forall>u. fetches_for u w' \<le> 1"
      by (simp add: fetches_for_def)
    moreover have "\<forall>show \<in> set show_list.
        \<exists>u. path show [''account'', ''uuid''] = Inr u \<and> fetches_for u w' = 1"
      if "res = Inr data"
        "fetch_shows_in_date_range api start_date end_date w = Some (Inr show_list, w2)"
      for data show_list w2
    proof -
      from that(2) f have "show_list = ss" by simp
      with each that(1) one show ?thesis by blast
    qed
    ultimately show ?thesis by blast
  qed
qed

lemma demo_single_page:
  "nodes (single_page ns) = ns" "has_next (single_page ns) = False"
  "collected mk [single_page ns] w = Some (Inr ns, w\<lparr>sent := sent w @ [mk JNull]\<rparr>)"
  by (simp_all add: single_page_def collected_def)

lemma demo_fetch_accounts:
  "fetch_accounts demo_api w = Some (Inr [demo_account], w\<lparr>sent := sent w @ [Accounts_query JNull]\<rparr>)"
proof -
  have "served demo_api Accounts_query accounts_body (sent w) JNull [single_page [demo_account]]"
    by (simp add: demo_api_def ok_body_def demo_single_page)
  from fetch_accounts_served [OF this] show ?thesis
    by (simp add: demo_single_page)
qed

lemma demo_fetch_tours:
  "fetch_tours demo_api u w = Some (Inr [demo_tour], w\<lparr>sent := sent w @ [Tours_query u JNull]\<rparr>)"
proof -
  have "served demo_api (Tours_query u) tours_body (sent w) JNull [single_page [demo_tour]]"
    by (simp add: demo_api_def ok_body_def demo_single_page)
  from fetch_tours_served [OF this] show ?thesis
    by (simp add: demo_single_page)
qed

lemma demo_fetch_shows:
  "fetch_shows demo_api u sd ed w
     = Some (Inr [demo_show ''show-1'', demo_show ''show-2''],
             w\<lparr>sent := sent w @ [Shows_query u sd ed JNull]\<rparr>)"
proof -
  have "served demo_api (Shows_query u sd ed) shows_body (sent w) JNull
          [single_page [demo_show ''show-1'', demo_show ''show-2'']]"
    by (simp add: demo_api_def ok_body_def demo_single_page)
  from fetch_shows_served [OF this] show ?thesis
    by (simp add: demo_single_page)
qed

lemma demo_fetch_merchandise:
  "fetch_merchandise demo_api u w
     = Some (Inr [demo_item],
             w\<lparr>sent := sent w @ [Merchandise_query u JNull], merch_calls := merch_calls w @ [u]\<rparr>)"
proof -
  have "served demo_api (Merchandise_query u) (merchandise_body u) (sent w) JNull
          [single_page [demo_item]]"
    by (simp add: demo_api_def ok_body_def demo_single_page)
  from fetch_merchandise_served [OF this] show ?thesis
    by (simp add: demo_single_page)
qed

lemma demo_fetch_counts:
  "fetch_counts demo_api u w
     = Some (Inr [demo_count_a, demo_count_unknown, demo_count_b],
             w\<lparr>sent := sent w @ [Counts_query u JNull]\<rparr>)"
proof -
  have "served demo_api (Counts_query u) counts_body (sent w) JNull
          [single_page [demo_count_a, demo_count_unknown, demo_count_b]]"
    by (simp add: demo_api_def ok_body_def demo_single_page)
  from fetch_counts_served [OF this] show ?thesis
    by (simp add: demo_single_page)
qed

lemma demo_fetch_shows_in_date_range:
  "fetch_shows_in_date_range demo_api ''2024-08-13'' ''2024-08-13'' fresh
     = Some (Inr [demo_show_attached ''show-1'', demo_show_attached ''show-2''],
             \<lparr>sent = [Accounts_query JNull, Tours_query (JStr ''acc-1'') JNull,
                      Shows_query (JStr ''tour-1'') ''2024-08-13'' ''2024-08-13'' JNull],
              merch_calls = []\<rparr>)"
  by (simp add: fetch_shows_in_date_range_def then_do_def pure_step_def demo_fetch_accounts
      demo_fetch_tours demo_fetch_shows fresh_def demo_account_def demo_tour_def demo_show_def
      demo_show_attached_def bind_err_def)

lemma demo_process_count_unknown:
  "process_count text_of (demo_show_attached uuid) [demo_item] demo_count_unknown = Inr None"
  by (simp add: demo_defs join_defs)

lemma demo_process_counts:
  "process_counts text_of (demo_show_attached uuid) [demo_item]
     [demo_count_a, demo_count_unknown, demo_count_b] all_data
     = Inr (all_data @ [demo_record_a, demo_record_b])"
  by (simp add: demo_process_count_a demo_process_count_b demo_process_count_unknown
      bind_err_def)

lemma demo_show_keys:
  "subscript (demo_show_attached uuid) ''uuid'' = Inr (JStr uuid)"
  "subscript (demo_show_attached uuid) ''showDate'' = Inr (JStr ''2024-08-13'')"
  "path (demo_show_attached uuid) [''account'', ''uuid''] = Inr (JStr ''acc-1'')"
  by (simp_all add: demo_show_attached_def demo_account_def bind_err_def)

lemma demo_shows_loop:
  "shows_loop demo_api text_of [demo_show_attached ''show-1'', demo_show_attached ''show-2''] [] []
     \<lparr>sent = [Accounts_query JNull, Tours_query (JStr ''acc-1'') JNull,
              Shows_query (JStr ''tour-1'') ''2024-08-13'' ''2024-08-13'' JNull],
      merch_calls = []\<rparr>
   = Some (Inr [demo_record_a, demo_record_b, demo_record_a, demo_record_b], demo_final)"
  by (simp add: then_do_def pure_step_def demo_show_keys cached_merchandise_def
      demo_fetch_merchandise demo_fetch_counts demo_process_counts demo_final_def
      del: path.simps process_counts.simps)

lemma demo_fetch_all_data:
  "fetch_all_data demo_api text_of ''2024-08-13'' ''2024-08-13'' fresh
     = Some (Inr [demo_record_a, demo_record_b, demo_record_a, demo_record_b], demo_final)"
  by (simp add: fetch_all_data_def then_do_def demo_fetch_shows_in_date_range demo_shows_loop
      del: shows_loop.simps)

theorem merchandise_fetched_once_per_account_witness:
  "merch_calls fresh = []
   \<and> fetch_all_data demo_api text_of ''2024-08-13'' ''2024-08-13'' fresh
       = Some (Inr [demo_record_a, demo_record_b, demo_record_a, demo_record_b], demo_final)
   \<and> path (demo_show_attached ''show-1'') [''account'', ''uuid''] = Inr (JStr ''acc-1'')
   \<and> path (demo_show_attached ''show-2'') [''account'', ''uuid''] = Inr (JStr ''acc-1'')
   \<and> fetches_for (JStr ''acc-1'') demo_final = 1"
proof -
  have a: "merch_calls fresh = []" by (simp add: fresh_def)
  note b = demo_fetch_all_data
  note t = merchandise_fetched_once_per_account [OF a b]
  from conjunct2 [OF t] demo_fetch_shows_in_date_range
  have "\<exists>u. path (demo_show_attached ''show-1'') [''account'', ''uuid''] = Inr u
          \<and> fetches_for u demo_final = 1"
    by (auto simp del: path.simps)
  then have "fetches_for (JStr ''acc-1'') demo_final = 1"
    by (simp add: demo_show_keys del: path.simps)
  with a b show ?thesis
    by (simp add: demo_show_keys del: path.simps)
qed

end
